theory Spec2Isabelle
  imports Main "HOL-Library.Char_ord" "HOL-Library.List_Lexorder"
begin

section \<open>Data model: the three tables\<close>

text \<open>
  The repository holds two implementations of the same store operations over the same
  SQLite schema:
  \<^item> the application's \<^verbatim>\<open>database.js\<close> (better-sqlite3), which the IPC handlers of
    \<^verbatim>\<open>src/main/ipc-handlers.js\<close> call; its text is the part of \<^verbatim>\<open>src/jest.config.js\<close>
    that follows the jest configuration (lines 15 to 1172);
  \<^item> the test double \<^verbatim>\<open>tests/helpers/test-database.js\<close> (sql.js), whose operations are
    announced as "mirrored from database.js"; its text is \<^verbatim>\<open>src/unnamed/part_006\<close>.
  Definitions taken from \<^verbatim>\<open>database.js\<close> keep the source's names; definitions taken from
  the test double carry the suffix \<open>_helper\<close>. Both work on the same tables.

  A table is the list of its rows in rowid order (\<^verbatim>\<open>id INTEGER PRIMARY KEY AUTOINCREMENT\<close>):
  an INSERT appends a row, an UPDATE rewrites every row its WHERE clause selects, a DELETE
  filters. Quantities are SQLite INTEGERs, hence \<open>int\<close>. Text columns are strings;
  \<^verbatim>\<open>order_date\<close> holds the ISO-8601 text of Shopify's \<^verbatim>\<open>createdAt\<close>, which SQLite orders
  bytewise, that is, by the lexicographic order on strings.
\<close>

datatype task_status = Pending | In_progress | Completed

datatype order_status = OPending | OIn_progress | Fulfilled | Archived

record task =
  variant_id :: string
  variant_title :: string
  product_title :: string
  sku :: string
  image_url :: "string option"
  total_quantity :: int
  made_quantity :: int
  status :: task_status

record order =
  order_id :: string
  order_name :: string
  order_date :: string
  total_items :: int
  fulfilled_items :: int
  ostatus :: order_status

record line_item =
  line_item_id :: string
  li_order_id :: string
  li_variant_id :: string
  li_variant_title :: string
  li_product_title :: string
  li_sku :: string
  li_image_url :: "string option"
  quantity :: int
  fulfilled_quantity :: int

record db =
  tasks :: "task list"
  orders :: "order list"
  order_line_items :: "line_item list"

datatype error = TaskNotFound | ExceedsTotal | OrderNotFound | InvalidInput | TypeError

section \<open>Rows, lookups and statements\<close>

text \<open>
  The JavaScript objects passed to the upserts carry the columns in camelCase
  (\<^verbatim>\<open>variantId\<close>, \<^verbatim>\<open>totalQuantity\<close>, ...); they are given here as rows, the field
  \<open>variant_id\<close> of the argument standing for the property \<^verbatim>\<open>variantId\<close>, and so on.
  \<^verbatim>\<open>database.js\<close> never reads \<^verbatim>\<open>madeQuantity\<close>, \<^verbatim>\<open>fulfilledItems\<close>, \<^verbatim>\<open>fulfilledQuantity\<close> or
  \<^verbatim>\<open>status\<close> of such an argument; the test double does, with \<^verbatim>\<open>|| 0\<close> and
  \<^verbatim>\<open>|| 'pending'\<close>, which are the identity on these types.
\<close>

definition getTaskByVariantId :: "db \<Rightarrow> string \<Rightarrow> task option" where
  \<comment> \<open>\<^verbatim>\<open>SELECT * FROM tasks WHERE variant_id = ?\<close>, first row or undefined\<close>
  "getTaskByVariantId s v = find (\<lambda>t. variant_id t = v) (tasks s)"

definition getOrderByOrderId :: "db \<Rightarrow> string \<Rightarrow> order option" where
  \<comment> \<open>\<^verbatim>\<open>SELECT * FROM orders WHERE order_id = ?\<close>, first row or undefined\<close>
  "getOrderByOrderId s oid = find (\<lambda>ord. order_id ord = oid) (orders s)"

definition getOrderLineItems :: "db \<Rightarrow> string \<Rightarrow> line_item list" where
  \<comment> \<open>\<^verbatim>\<open>SELECT ... FROM order_line_items WHERE order_id = ?\<close>\<close>
  "getOrderLineItems s oid = filter (\<lambda>li. li_order_id li = oid) (order_line_items s)"

definition update_tasks :: "(task \<Rightarrow> bool) \<Rightarrow> (task \<Rightarrow> task) \<Rightarrow> db \<Rightarrow> db" where
  \<comment> \<open>\<^verbatim>\<open>UPDATE tasks SET ... WHERE ...\<close>\<close>
  "update_tasks sel f s = s\<lparr>tasks := map (\<lambda>t. if sel t then f t else t) (tasks s)\<rparr>"

definition update_orders :: "(order \<Rightarrow> bool) \<Rightarrow> (order \<Rightarrow> order) \<Rightarrow> db \<Rightarrow> db" where
  \<comment> \<open>\<^verbatim>\<open>UPDATE orders SET ... WHERE ...\<close>\<close>
  "update_orders sel f s = s\<lparr>orders := map (\<lambda>ord. if sel ord then f ord else ord) (orders s)\<rparr>"

definition update_line_items ::
  "(line_item \<Rightarrow> bool) \<Rightarrow> (line_item \<Rightarrow> line_item) \<Rightarrow> db \<Rightarrow> db" where
  \<comment> \<open>\<^verbatim>\<open>UPDATE order_line_items SET ... WHERE ...\<close>\<close>
  "update_line_items sel f s =
     s\<lparr>order_line_items := map (\<lambda>li. if sel li then f li else li) (order_line_items s)\<rparr>"

definition delete_tasks :: "(task \<Rightarrow> bool) \<Rightarrow> db \<Rightarrow> db" where
  \<comment> \<open>\<^verbatim>\<open>DELETE FROM tasks WHERE ...\<close>\<close>
  "delete_tasks sel s = s\<lparr>tasks := filter (\<lambda>t. \<not> sel t) (tasks s)\<rparr>"

definition insert_task :: "task \<Rightarrow> db \<Rightarrow> db" where
  "insert_task t s = s\<lparr>tasks := tasks s @ [t]\<rparr>"

definition or_null :: "string option \<Rightarrow> string option" where
  \<comment> \<open>\<^verbatim>\<open>imageUrl || null\<close>: undefined, null and the empty string become null\<close>
  "or_null u = (case u of None \<Rightarrow> None | Some x \<Rightarrow> if x = [] then None else Some x)"

text \<open>
  The joins of both implementations are \<^verbatim>\<open>order_line_items JOIN orders ON order_id\<close> with
  \<^verbatim>\<open>o.status != 'archived'\<close>. The column \<^verbatim>\<open>orders.order_id\<close> is UNIQUE, so a line item
  joins at most one order, the row that \<^verbatim>\<open>getOrderByOrderId\<close> finds; a row of the join is
  kept as its line item, and the parent's \<^verbatim>\<open>order_date\<close> is read through \<open>parent_date\<close>.
\<close>

definition active :: "db \<Rightarrow> line_item \<Rightarrow> bool" where
  "active s li =
     (case getOrderByOrderId s (li_order_id li) of
        None \<Rightarrow> False | Some ord \<Rightarrow> ostatus ord \<noteq> Archived)"

definition parent_date :: "db \<Rightarrow> line_item \<Rightarrow> string" where
  "parent_date s li =
     (case getOrderByOrderId s (li_order_id li) of None \<Rightarrow> [] | Some ord \<Rightarrow> order_date ord)"

definition active_items_of :: "db \<Rightarrow> string \<Rightarrow> line_item list" where
  "active_items_of s v =
     filter (\<lambda>li. li_variant_id li = v \<and> active s li) (order_line_items s)"

definition sum_quantity :: "db \<Rightarrow> string \<Rightarrow> int" where
  \<comment> \<open>\<^verbatim>\<open>SUM(li.quantity)\<close> of the variant's group\<close>
  "sum_quantity s v = sum_list (map quantity (active_items_of s v))"

definition sum_fulfilled :: "db \<Rightarrow> string \<Rightarrow> int" where
  \<comment> \<open>\<^verbatim>\<open>SUM(li.fulfilled_quantity)\<close> of the variant's group\<close>
  "sum_fulfilled s v = sum_list (map fulfilled_quantity (active_items_of s v))"

section \<open>Status derivation\<close>

text \<open>
  \<^verbatim>\<open>database.js\<close> derives statuses in SQL: \<^verbatim>\<open>updateTaskStatus\<close> has
  \<^verbatim>\<open>CASE WHEN made_quantity = 0 THEN 'pending' WHEN made_quantity >= total_quantity THEN
  'completed' ELSE 'in_progress' END\<close>, and \<^verbatim>\<open>updateAllOrderStatuses\<close> the same CASE on
  \<^verbatim>\<open>fulfilled_items\<close> and \<^verbatim>\<open>total_items\<close> with \<^verbatim>\<open>'fulfilled'\<close>.
\<close>

definition deriveTaskStatus :: "int \<Rightarrow> int \<Rightarrow> task_status" where
  "deriveTaskStatus made tot =
     (if made = 0 then Pending else if made \<ge> tot then Completed else In_progress)"

definition deriveOrderStatus :: "int \<Rightarrow> int \<Rightarrow> order_status" where
  "deriveOrderStatus ful tot =
     (if ful = 0 then OPending else if ful \<ge> tot then Fulfilled else OIn_progress)"

text \<open>
  The test double derives statuses inline, in \<^verbatim>\<open>updateMadeQuantity\<close>, \<^verbatim>\<open>archiveOrder\<close>,
  \<^verbatim>\<open>unarchiveOrder\<close>, \<^verbatim>\<open>allocateMadeQuantityToOrders\<close>, \<^verbatim>\<open>resetVariantInOrders\<close> and
  \<^verbatim>\<open>recalculateTaskTotalsFromOrders\<close>, always as
  \<^verbatim>\<open>made >= total ? 'completed' : made > 0 ? 'in_progress' : 'pending'\<close> (for orders, with
  \<^verbatim>\<open>'fulfilled'\<close>). \<^verbatim>\<open>unarchiveOrder\<close> of \<^verbatim>\<open>database.js\<close> restores the order status with the
  same test order.
\<close>

definition deriveTaskStatus_helper :: "int \<Rightarrow> int \<Rightarrow> task_status" where
  "deriveTaskStatus_helper made tot =
     (if made \<ge> tot then Completed else if made > 0 then In_progress else Pending)"

definition inlineOrderStatus :: "int \<Rightarrow> int \<Rightarrow> order_status" where
  "inlineOrderStatus ful tot =
     (if ful \<ge> tot then Fulfilled else if ful > 0 then OIn_progress else OPending)"

section \<open>Task store\<close>

subsection \<open>database.js\<close>

definition updateTaskStatus :: "db \<Rightarrow> string \<Rightarrow> db" where
  "updateTaskStatus s v =
     update_tasks (\<lambda>t. variant_id t = v)
       (\<lambda>t. t\<lparr>status := deriveTaskStatus (made_quantity t) (total_quantity t)\<rparr>) s"

definition upsertTask :: "db \<Rightarrow> task \<Rightarrow> db" where
  \<comment> \<open>\<^verbatim>\<open>INSERT ... ON CONFLICT(variant_id) DO UPDATE SET\<close> titles, sku, image, total;
      an inserted row takes the column defaults \<^verbatim>\<open>made_quantity 0\<close>, \<^verbatim>\<open>status 'pending'\<close>\<close>
  "upsertTask s x =
     updateTaskStatus
       (case getTaskByVariantId s (variant_id x) of
          Some _ \<Rightarrow>
            update_tasks (\<lambda>t. variant_id t = variant_id x)
              (\<lambda>t. t\<lparr>variant_title := variant_title x, product_title := product_title x,
                      sku := sku x, image_url := or_null (image_url x),
                      total_quantity := total_quantity x\<rparr>) s
        | None \<Rightarrow>
            insert_task \<lparr>variant_id = variant_id x, variant_title = variant_title x,
              product_title = product_title x, sku = sku x,
              image_url = or_null (image_url x), total_quantity = total_quantity x,
              made_quantity = 0, status = Pending\<rparr> s)
       (variant_id x)"

text \<open>
  \<^verbatim>\<open>updateMadeQuantity\<close> throws before it writes, so an error result carries no successor
  database: the database is still \<open>s\<close>.
\<close>

definition updateMadeQuantity :: "db \<Rightarrow> string \<Rightarrow> int \<Rightarrow> error + db" where
  "updateMadeQuantity s v qty =
     (case getTaskByVariantId s v of
        None \<Rightarrow> Inl TaskNotFound
      | Some t \<Rightarrow>
          let newMade = made_quantity t + qty in
          if newMade > total_quantity t then Inl ExceedsTotal
          else Inr (updateTaskStatus
                 (update_tasks (\<lambda>t. variant_id t = v)
                    (\<lambda>t. t\<lparr>made_quantity := made_quantity t + qty\<rparr>) s) v))"

definition markTaskComplete :: "db \<Rightarrow> string \<Rightarrow> db" where
  "markTaskComplete s v =
     updateTaskStatus
       (update_tasks (\<lambda>t. variant_id t = v) (\<lambda>t. t\<lparr>made_quantity := total_quantity t\<rparr>) s) v"

definition resetTask :: "db \<Rightarrow> string \<Rightarrow> db" where
  "resetTask s v =
     updateTaskStatus
       (update_tasks (\<lambda>t. variant_id t = v) (\<lambda>t. t\<lparr>made_quantity := 0\<rparr>) s) v"

subsection \<open>test-database.js\<close>

definition upsertTask_helper :: "db \<Rightarrow> task \<Rightarrow> db" where
  "upsertTask_helper s x =
     (case getTaskByVariantId s (variant_id x) of
        Some _ \<Rightarrow>
          update_tasks (\<lambda>t. variant_id t = variant_id x)
            (\<lambda>t. t\<lparr>variant_title := variant_title x, product_title := product_title x,
                    sku := sku x, image_url := or_null (image_url x),
                    total_quantity := total_quantity x\<rparr>) s
      | None \<Rightarrow>
          insert_task \<lparr>variant_id = variant_id x, variant_title = variant_title x,
            product_title = product_title x, sku = sku x,
            image_url = or_null (image_url x), total_quantity = total_quantity x,
            made_quantity = made_quantity x, status = status x\<rparr> s)"

record made_result =
  previousMade :: int
  newMade :: int
  actualAdded :: int
  newStatus :: task_status

definition updateMadeQuantity_helper :: "db \<Rightarrow> string \<Rightarrow> int \<Rightarrow> error + (made_result \<times> db)" where
  "updateMadeQuantity_helper s v quantityToAdd =
     (case getTaskByVariantId s v of
        None \<Rightarrow> Inl TaskNotFound
      | Some t \<Rightarrow>
          let nm = min (made_quantity t + quantityToAdd) (total_quantity t);
              added = nm - made_quantity t;
              st = deriveTaskStatus_helper nm (total_quantity t)
          in Inr (\<lparr>previousMade = made_quantity t, newMade = nm, actualAdded = added,
                    newStatus = st\<rparr>,
                  update_tasks (\<lambda>t. variant_id t = v)
                    (\<lambda>t. t\<lparr>made_quantity := nm, status := st\<rparr>) s))"

definition resetTask_helper :: "db \<Rightarrow> string \<Rightarrow> bool \<times> db" where
  "resetTask_helper s v =
     (True, update_tasks (\<lambda>t. variant_id t = v)
              (\<lambda>t. t\<lparr>made_quantity := 0, status := Pending\<rparr>) s)"

section \<open>Order store\<close>

subsection \<open>database.js\<close>

definition upsertOrder :: "db \<Rightarrow> order \<Rightarrow> db" where
  \<comment> \<open>an inserted row takes the defaults \<^verbatim>\<open>fulfilled_items 0\<close>, \<^verbatim>\<open>status 'pending'\<close>\<close>
  "upsertOrder s x =
     (case getOrderByOrderId s (order_id x) of
        Some _ \<Rightarrow>
          update_orders (\<lambda>ord. order_id ord = order_id x)
            (\<lambda>ord. ord\<lparr>order_name := order_name x, order_date := order_date x,
                        total_items := total_items x\<rparr>) s
      | None \<Rightarrow>
          s\<lparr>orders := orders s @ [\<lparr>order_id = order_id x, order_name = order_name x,
               order_date = order_date x, total_items = total_items x,
               fulfilled_items = 0, ostatus = OPending\<rparr>]\<rparr>)"

definition upsertOrderLineItem :: "db \<Rightarrow> line_item \<Rightarrow> db" where
  \<comment> \<open>\<^verbatim>\<open>ON CONFLICT(line_item_id) DO UPDATE SET quantity = excluded.quantity\<close>;
      an inserted row takes the default \<^verbatim>\<open>fulfilled_quantity 0\<close>\<close>
  "upsertOrderLineItem s x =
     (case find (\<lambda>li. line_item_id li = line_item_id x) (order_line_items s) of
        Some _ \<Rightarrow>
          update_line_items (\<lambda>li. line_item_id li = line_item_id x)
            (\<lambda>li. li\<lparr>quantity := quantity x\<rparr>) s
      | None \<Rightarrow>
          s\<lparr>order_line_items := order_line_items s @
               [\<lparr>line_item_id = line_item_id x, li_order_id = li_order_id x,
                 li_variant_id = li_variant_id x, li_variant_title = li_variant_title x,
                 li_product_title = li_product_title x, li_sku = li_sku x,
                 li_image_url = or_null (li_image_url x), quantity = quantity x,
                 fulfilled_quantity = 0\<rparr>]\<rparr>)"

definition order_fulfilled_sum :: "db \<Rightarrow> string \<Rightarrow> int" where
  \<comment> \<open>\<^verbatim>\<open>SELECT COALESCE(SUM(fulfilled_quantity), 0) FROM order_line_items WHERE
      order_line_items.order_id = orders.order_id\<close>\<close>
  "order_fulfilled_sum s oid = sum_list (map fulfilled_quantity (getOrderLineItems s oid))"

definition updateAllOrderStatuses :: "db \<Rightarrow> db" where
  "updateAllOrderStatuses s =
     update_orders (\<lambda>ord. ostatus ord \<noteq> Archived)
       (\<lambda>ord. ord\<lparr>ostatus := deriveOrderStatus (fulfilled_items ord) (total_items ord)\<rparr>)
       (update_orders (\<lambda>ord. ostatus ord \<noteq> Archived)
          (\<lambda>ord. ord\<lparr>fulfilled_items := order_fulfilled_sum s (order_id ord)\<rparr>) s)"

record allocation =
  alloc_orderId :: string
  alloc_lineItemId :: string
  allocated :: int

text \<open>
  The loop of \<^verbatim>\<open>allocateMadeQuantityToOrders\<close> over the rows selected before it starts;
  \<open>affected\<close> is the JavaScript Set \<^verbatim>\<open>affectedOrderIds\<close>, kept as the list of the ids added.
\<close>

fun allocate_loop ::
  "line_item list \<Rightarrow> int \<Rightarrow> db \<Rightarrow> allocation list \<Rightarrow> string list
     \<Rightarrow> db \<times> allocation list \<times> string list" where
  "allocate_loop [] remainingToAllocate s allocations affected = (s, allocations, affected)"
| "allocate_loop (item # rest) remainingToAllocate s allocations affected =
     (if remainingToAllocate \<le> 0 then (s, allocations, affected)
      else
        let canFulfill = quantity item - fulfilled_quantity item;
            willFulfill = min canFulfill remainingToAllocate
        in if willFulfill > 0
           then allocate_loop rest (remainingToAllocate - willFulfill)
                  (update_line_items (\<lambda>li. line_item_id li = line_item_id item)
                     (\<lambda>li. li\<lparr>fulfilled_quantity := fulfilled_quantity li + willFulfill\<rparr>) s)
                  (allocations @ [\<lparr>alloc_orderId = li_order_id item,
                     alloc_lineItemId = line_item_id item, allocated = willFulfill\<rparr>])
                  (affected @ [li_order_id item])
           else allocate_loop rest remainingToAllocate s allocations affected)"

definition allocation_rows :: "db \<Rightarrow> string \<Rightarrow> line_item list" where
  \<comment> \<open>\<^verbatim>\<open>WHERE oli.variant_id = ? AND oli.fulfilled_quantity < oli.quantity AND o.status !=
      'archived' ORDER BY o.order_date ASC, oli.id ASC\<close>: a stable sort of the rows in rowid
      order\<close>
  "allocation_rows s v =
     sort_key (parent_date s)
       (filter (\<lambda>li. li_variant_id li = v \<and> fulfilled_quantity li < quantity li \<and> active s li)
          (order_line_items s))"

definition allocateMadeQuantityToOrders ::
  "db \<Rightarrow> string \<Rightarrow> int \<Rightarrow> db \<times> allocation list \<times> order list" where
  "allocateMadeQuantityToOrders s v qty =
     (let notFulfilledBefore =
            map order_id (filter (\<lambda>ord. ostatus ord \<noteq> Fulfilled \<and> ostatus ord \<noteq> Archived) (orders s));
          (s1, allocations, affected) = allocate_loop (allocation_rows s v) qty s [] [];
          s2 = updateAllOrderStatuses s1;
          newlyFulfilledOrders =
            (if affected \<noteq> []
             then filter (\<lambda>ord. order_id ord \<in> set notFulfilledBefore)
                    (filter (\<lambda>ord. order_id ord \<in> set affected \<and> ostatus ord = Fulfilled)
                       (orders s2))
             else [])
      in (s2, allocations, newlyFulfilledOrders))"

definition resetVariantInOrders :: "db \<Rightarrow> string \<Rightarrow> db" where
  "resetVariantInOrders s v =
     updateAllOrderStatuses
       (update_line_items (\<lambda>li. li_variant_id li = v) (\<lambda>li. li\<lparr>fulfilled_quantity := 0\<rparr>) s)"

text \<open>
  \<^verbatim>\<open>clearOrdersWithoutProgress\<close> and \<^verbatim>\<open>getOrderIdsToSkipDuringSync\<close> have the same statements
  in both files. The JavaScript Sets they return are built from the rows selected and are
  kept as the lists of these ids; \<^verbatim>\<open>has\<close> is membership and \<^verbatim>\<open>size > 0\<close> is non-emptiness.
\<close>

definition clearOrdersWithoutProgress :: "db \<Rightarrow> string list \<times> db" where
  "clearOrdersWithoutProgress s =
     (let progressOrderIds =
            map order_id
              (filter (\<lambda>ord. ostatus ord \<noteq> Archived \<and> fulfilled_items ord > 0) (orders s));
          without =
            map order_id
              (filter (\<lambda>ord. ostatus ord \<noteq> Archived \<and> fulfilled_items ord = 0) (orders s));
          s1 = s\<lparr>order_line_items :=
                  filter (\<lambda>li. li_order_id li \<notin> set without) (order_line_items s)\<rparr>;
          s2 = s1\<lparr>orders :=
                  filter (\<lambda>ord. \<not> (ostatus ord \<noteq> Archived \<and> fulfilled_items ord = 0))
                    (orders s1)\<rparr>
      in (progressOrderIds, s2))"

definition getOrderIdsToSkipDuringSync :: "db \<Rightarrow> string list" where
  "getOrderIdsToSkipDuringSync s =
     map order_id (filter (\<lambda>ord. ostatus ord = Archived \<or> fulfilled_items ord > 0) (orders s))"

definition recalculateTaskTotalsFromOrders :: "db \<Rightarrow> db" where
  \<comment> \<open>\<^verbatim>\<open>variantTotals.get\<close> finds a group exactly for the variants with a joined row\<close>
  "recalculateTaskTotalsFromOrders s =
     delete_tasks (\<lambda>t. total_quantity t = 0)
       (foldl
          (\<lambda>s' v.
             updateTaskStatus
               (update_tasks (\<lambda>t. variant_id t = v)
                  (\<lambda>t. if active_items_of s v \<noteq> []
                       then t\<lparr>total_quantity := sum_quantity s v,
                              made_quantity := sum_fulfilled s v\<rparr>
                       else t\<lparr>total_quantity := 0, made_quantity := 0\<rparr>) s') v)
          s (map variant_id (tasks s)))"

datatype archive_outcome = AlreadyArchived | DidArchive

datatype unarchive_outcome = NotArchived | DidUnarchive

definition archive_item :: "db \<Rightarrow> line_item \<Rightarrow> db" where
  \<comment> \<open>body of the loop of \<^verbatim>\<open>archiveOrder\<close>\<close>
  "archive_item s item =
     updateTaskStatus
       (update_tasks (\<lambda>t. variant_id t = li_variant_id item)
          (\<lambda>t. t\<lparr>total_quantity := max 0 (total_quantity t - quantity item)\<rparr>)
          (if fulfilled_quantity item > 0
           then update_tasks (\<lambda>t. variant_id t = li_variant_id item)
                  (\<lambda>t. t\<lparr>made_quantity := max 0 (made_quantity t - fulfilled_quantity item)\<rparr>) s
           else s))
       (li_variant_id item)"

definition archiveOrder :: "db \<Rightarrow> string \<Rightarrow> error + (archive_outcome \<times> db)" where
  "archiveOrder s oid =
     (case getOrderByOrderId s oid of
        None \<Rightarrow> Inl OrderNotFound
      | Some ord \<Rightarrow>
          if ostatus ord = Archived then Inr (AlreadyArchived, s)
          else Inr (DidArchive,
                 delete_tasks (\<lambda>t. total_quantity t = 0)
                   (update_orders (\<lambda>ord. order_id ord = oid) (\<lambda>ord. ord\<lparr>ostatus := Archived\<rparr>)
                      (foldl archive_item s (getOrderLineItems s oid)))))"

definition unarchive_item :: "db \<Rightarrow> line_item \<Rightarrow> db" where
  \<comment> \<open>body of the loop of \<^verbatim>\<open>unarchiveOrder\<close>\<close>
  "unarchive_item s item =
     updateTaskStatus
       (case getTaskByVariantId s (li_variant_id item) of
          Some _ \<Rightarrow>
            update_tasks (\<lambda>t. variant_id t = li_variant_id item)
              (\<lambda>t. t\<lparr>total_quantity := total_quantity t + quantity item,
                      made_quantity := made_quantity t + fulfilled_quantity item\<rparr>) s
        | None \<Rightarrow>
            insert_task \<lparr>variant_id = li_variant_id item, variant_title = li_variant_title item,
              product_title = li_product_title item, sku = li_sku item,
              image_url = li_image_url item, total_quantity = quantity item,
              made_quantity = fulfilled_quantity item, status = Pending\<rparr> s)
       (li_variant_id item)"

definition unarchiveOrder :: "db \<Rightarrow> string \<Rightarrow> error + (unarchive_outcome \<times> db)" where
  "unarchiveOrder s oid =
     (case getOrderByOrderId s oid of
        None \<Rightarrow> Inl OrderNotFound
      | Some ord \<Rightarrow>
          if ostatus ord \<noteq> Archived then Inr (NotArchived, s)
          else
            let s1 = foldl unarchive_item s (getOrderLineItems s oid) in
            case getOrderByOrderId s1 oid of
              None \<Rightarrow> Inl TypeError
            | Some orderData \<Rightarrow>
                Inr (DidUnarchive,
                  update_orders (\<lambda>ord. order_id ord = oid)
                    (\<lambda>ord. ord\<lparr>ostatus :=
                       inlineOrderStatus (fulfilled_items orderData) (total_items orderData)\<rparr>)
                    s1))"

subsection \<open>test-database.js\<close>

definition upsertOrder_helper :: "db \<Rightarrow> order \<Rightarrow> db" where
  "upsertOrder_helper s x =
     (case getOrderByOrderId s (order_id x) of
        Some _ \<Rightarrow>
          update_orders (\<lambda>ord. order_id ord = order_id x)
            (\<lambda>ord. ord\<lparr>order_name := order_name x, order_date := order_date x,
                        total_items := total_items x\<rparr>) s
      | None \<Rightarrow>
          s\<lparr>orders := orders s @ [\<lparr>order_id = order_id x, order_name = order_name x,
               order_date = order_date x, total_items = total_items x,
               fulfilled_items = fulfilled_items x, ostatus = ostatus x\<rparr>]\<rparr>)"

definition upsertOrderLineItem_helper :: "db \<Rightarrow> line_item \<Rightarrow> db" where
  "upsertOrderLineItem_helper s x =
     (case find (\<lambda>li. line_item_id li = line_item_id x) (order_line_items s) of
        Some _ \<Rightarrow>
          update_line_items (\<lambda>li. line_item_id li = line_item_id x)
            (\<lambda>li. li\<lparr>quantity := quantity x\<rparr>) s
      | None \<Rightarrow>
          s\<lparr>order_line_items := order_line_items s @
               [\<lparr>line_item_id = line_item_id x, li_order_id = li_order_id x,
                 li_variant_id = li_variant_id x, li_variant_title = li_variant_title x,
                 li_product_title = li_product_title x, li_sku = li_sku x,
                 li_image_url = or_null (li_image_url x), quantity = quantity x,
                 fulfilled_quantity = fulfilled_quantity x\<rparr>]\<rparr>)"

definition allocation_rows_helper :: "db \<Rightarrow> string \<Rightarrow> line_item list" where
  \<comment> \<open>\<^verbatim>\<open>WHERE li.variant_id = ? AND o.status != 'archived' ORDER BY o.order_date ASC\<close>;
      rows of equal date are taken in rowid order\<close>
  "allocation_rows_helper s v = sort_key (parent_date s) (active_items_of s v)"

text \<open>
  The loop of the test double reads the parent order afresh for every row it fulfils,
  after the UPDATE of the line item (which leaves the orders table as it is);
  \<^verbatim>\<open>order.fulfilled_items\<close> of a missing order would be a TypeError.
\<close>

fun allocate_loop_helper ::
  "line_item list \<Rightarrow> int \<Rightarrow> db \<Rightarrow> (string \<times> string) list
     \<Rightarrow> error + (db \<times> (string \<times> string) list)" where
  "allocate_loop_helper [] remainingToAllocate s fulfilledOrders = Inr (s, fulfilledOrders)"
| "allocate_loop_helper (item # rest) remainingToAllocate s fulfilledOrders =
     (if remainingToAllocate \<le> 0 then Inr (s, fulfilledOrders)
      else if quantity item - fulfilled_quantity item \<le> 0
      then allocate_loop_helper rest remainingToAllocate s fulfilledOrders
      else
        (case getOrderByOrderId s (li_order_id item) of
           None \<Rightarrow> Inl TypeError
         | Some ord \<Rightarrow>
             allocate_loop_helper rest
               (remainingToAllocate - min (quantity item - fulfilled_quantity item) remainingToAllocate)
               (update_orders (\<lambda>r. order_id r = li_order_id item)
                  (\<lambda>r. r\<lparr>fulfilled_items := fulfilled_items ord
                             + min (quantity item - fulfilled_quantity item) remainingToAllocate,
                          ostatus := inlineOrderStatus
                            (fulfilled_items ord
                               + min (quantity item - fulfilled_quantity item) remainingToAllocate)
                            (total_items ord)\<rparr>)
                  (update_line_items (\<lambda>li. line_item_id li = line_item_id item)
                     (\<lambda>li. li\<lparr>fulfilled_quantity := fulfilled_quantity item
                        + min (quantity item - fulfilled_quantity item) remainingToAllocate\<rparr>) s))
               (if inlineOrderStatus
                     (fulfilled_items ord
                        + min (quantity item - fulfilled_quantity item) remainingToAllocate)
                     (total_items ord) = Fulfilled \<and> ostatus ord \<noteq> Fulfilled
                then fulfilledOrders @ [(order_id ord, order_name ord)]
                else fulfilledOrders)))"

definition allocateMadeQuantityToOrders_helper ::
  "db \<Rightarrow> string \<Rightarrow> int \<Rightarrow> error + (db \<times> (string \<times> string) list)" where
  "allocateMadeQuantityToOrders_helper s v quantityToAllocate =
     allocate_loop_helper (allocation_rows_helper s v) quantityToAllocate s []"

fun reset_loop_helper :: "line_item list \<Rightarrow> db \<Rightarrow> error + db" where
  "reset_loop_helper [] s = Inr s"
| "reset_loop_helper (item # rest) s =
     (if fulfilled_quantity item > 0
      then (case getOrderByOrderId s (li_order_id item) of
              None \<Rightarrow> Inl TypeError
            | Some ord \<Rightarrow>
                reset_loop_helper rest
                  (update_orders (\<lambda>r. order_id r = li_order_id item)
                     (\<lambda>r. r\<lparr>fulfilled_items := max 0 (fulfilled_items ord - fulfilled_quantity item),
                             ostatus := inlineOrderStatus
                               (max 0 (fulfilled_items ord - fulfilled_quantity item))
                               (total_items ord)\<rparr>)
                     (update_line_items (\<lambda>li. line_item_id li = line_item_id item)
                        (\<lambda>li. li\<lparr>fulfilled_quantity := 0\<rparr>) s)))
      else reset_loop_helper rest s)"

definition resetVariantInOrders_helper :: "db \<Rightarrow> string \<Rightarrow> error + db" where
  "resetVariantInOrders_helper s v = reset_loop_helper (active_items_of s v) s"

definition recalculateTaskTotalsFromOrders_helper :: "db \<Rightarrow> db" where
  \<comment> \<open>one UPDATE per group of \<^verbatim>\<open>GROUP BY li.variant_id\<close>; nothing else is written\<close>
  "recalculateTaskTotalsFromOrders_helper s =
     foldl
       (\<lambda>s' v.
          update_tasks (\<lambda>t. variant_id t = v)
            (\<lambda>t. t\<lparr>total_quantity := sum_quantity s v, made_quantity := sum_fulfilled s v,
                    status := deriveTaskStatus_helper (sum_fulfilled s v) (sum_quantity s v)\<rparr>) s')
       s (remdups (map li_variant_id (filter (active s) (order_line_items s))))"





section \<open>IPC handlers\<close>

text \<open>
  The handlers of \<^verbatim>\<open>ipc-handlers.js\<close> call \<^verbatim>\<open>database.js\<close> inside \<^verbatim>\<open>try\<close>; a throw becomes
  the \<^verbatim>\<open>success: false\<close> reply and the database stays as it is at the throw. The reply is
  reduced to the error or to the list of newly fulfilled orders. The sync handler is
  given here from the point where \<^verbatim>\<open>fetchAndAggregate\<close> has returned \<^verbatim>\<open>aggregated\<close> and
  \<^verbatim>\<open>ordersForStorage\<close>, each stored order coming with its \<^verbatim>\<open>lineItems\<close>.
\<close>

definition mark_made :: "db \<Rightarrow> string \<Rightarrow> int \<Rightarrow> (error + order list) \<times> db" where
  "mark_made s variantId qty =
     (if variantId = [] then (Inl InvalidInput, s)
      else if qty < 1 then (Inl InvalidInput, s)
      else case updateMadeQuantity s variantId qty of
             Inl e \<Rightarrow> (Inl e, s)
           | Inr s1 \<Rightarrow>
               (case allocateMadeQuantityToOrders s1 variantId qty of
                  (s2, allocations, newlyFulfilledOrders) \<Rightarrow> (Inr newlyFulfilledOrders, s2)))"

definition mark_complete :: "db \<Rightarrow> string \<Rightarrow> (error + order list) \<times> db" where
  "mark_complete s variantId =
     (if variantId = [] then (Inl InvalidInput, s)
      else case getTaskByVariantId s variantId of
             None \<Rightarrow> (Inl TypeError, s)
           | Some task \<Rightarrow>
               let remainingQty = total_quantity task - made_quantity task;
                   s1 = markTaskComplete s variantId
               in if remainingQty > 0
                  then (case allocateMadeQuantityToOrders s1 variantId remainingQty of
                          (s2, allocations, newlyFulfilledOrders) \<Rightarrow> (Inr newlyFulfilledOrders, s2))
                  else (Inr [], s1))"

definition reset_task :: "db \<Rightarrow> string \<Rightarrow> (error + unit) \<times> db" where
  "reset_task s variantId =
     (if variantId = [] then (Inl InvalidInput, s)
      else (Inr (), resetVariantInOrders (resetTask s variantId) variantId))"

definition archive_order :: "db \<Rightarrow> string \<Rightarrow> (error + unit) \<times> db" where
  "archive_order s orderId =
     (if orderId = [] then (Inl InvalidInput, s)
      else case archiveOrder s orderId of
             Inl e \<Rightarrow> (Inl e, s) | Inr (outcome, s1) \<Rightarrow> (Inr (), s1))"

definition unarchive_order :: "db \<Rightarrow> string \<Rightarrow> (error + unit) \<times> db" where
  "unarchive_order s orderId =
     (if orderId = [] then (Inl InvalidInput, s)
      else case unarchiveOrder s orderId of
             Inl e \<Rightarrow> (Inl e, s) | Inr (outcome, s1) \<Rightarrow> (Inr (), s1))"

definition store_order :: "string list \<Rightarrow> db \<Rightarrow> order \<times> line_item list \<Rightarrow> db" where
  \<comment> \<open>body of the loop over \<^verbatim>\<open>ordersForStorage\<close>\<close>
  "store_order skipOrderIds s entry =
     (if order_id (fst entry) \<in> set skipOrderIds then s
      else foldl upsertOrderLineItem (upsertOrder s (fst entry)) (snd entry))"

definition sync_shopify :: "db \<Rightarrow> task list \<Rightarrow> (order \<times> line_item list) list \<Rightarrow> db" where
  "sync_shopify s aggregated ordersForStorage =
     (let skipOrderIds = getOrderIdsToSkipDuringSync s;
          s1 = snd (clearOrdersWithoutProgress s);
          s2 = foldl (store_order skipOrderIds) s1 ordersForStorage;
          s3 = foldl upsertTask s2 aggregated;
          s4 = (if skipOrderIds \<noteq> [] then recalculateTaskTotalsFromOrders s3 else s3)
      in updateAllOrderStatuses s4)"



section \<open>The allocation plan, in the words of the specification\<close>

text \<open>
  "Walk the ordered list; for each item, compute \<open>room = lineQty - lineFulfilled\<close>; consume
  \<open>min(room, remaining)\<close>; stop when \<open>remaining = 0\<close> or the list is exhausted": the amounts
  consumed, row by row. (Once \<open>remaining\<close> is \<open>0\<close> the amounts are \<open>0\<close>.)
\<close>

fun fifo_amounts :: "int \<Rightarrow> line_item list \<Rightarrow> int list" where
  "fifo_amounts remaining [] = []"
| "fifo_amounts remaining (li # rest) =
     min (quantity li - fulfilled_quantity li) remaining
       # fifo_amounts (remaining - min (quantity li - fulfilled_quantity li) remaining) rest"

definition allocated_to :: "line_item list \<Rightarrow> int list \<Rightarrow> string \<Rightarrow> int" where
  \<comment> \<open>what the plan gives to the line item of a given id\<close>
  "allocated_to rows amounts k =
     sum_list (map snd (filter (\<lambda>p. line_item_id (fst p) = k) (zip rows amounts)))"

definition allocated_to_order :: "line_item list \<Rightarrow> int list \<Rightarrow> string \<Rightarrow> int" where
  \<comment> \<open>what the plan gives to the line items of a given order\<close>
  "allocated_to_order rows amounts oid =
     sum_list (map snd (filter (\<lambda>p. li_order_id (fst p) = oid) (zip rows amounts)))"

definition bump_order :: "line_item list \<Rightarrow> int list \<Rightarrow> order \<Rightarrow> order" where
  \<comment> \<open>an order that receives something has its counter raised by that amount and its
      status derived again\<close>
  "bump_order rows amounts r =
     (if allocated_to_order rows amounts (order_id r) > 0
      then r\<lparr>fulfilled_items := fulfilled_items r + allocated_to_order rows amounts (order_id r),
             ostatus := inlineOrderStatus
               (fulfilled_items r + allocated_to_order rows amounts (order_id r))
               (total_items r)\<rparr>
      else r)"

definition allocation_effect :: "line_item list \<Rightarrow> int list \<Rightarrow> db \<Rightarrow> db" where
  "allocation_effect rows amounts s =
     s\<lparr>orders := map (bump_order rows amounts) (orders s),
       order_line_items :=
         map (\<lambda>li. li\<lparr>fulfilled_quantity :=
                fulfilled_quantity li + allocated_to rows amounts (line_item_id li)\<rparr>)
           (order_line_items s)\<rparr>"

section \<open>The core consistency invariant\<close>

text \<open>
  "\<open>task.totalQuantity = \<Sigma> quantity\<close> and \<open>task.madeQuantity = \<Sigma> fulfilledQuantity\<close> over all
  OrderLineItems with that variantId belonging to non-archived orders", for every task row;
  and the same together with the constraints of the data model: unique ids, progress of a
  line item within its quantity, and a task for every variant that non-archived orders ask
  for.
\<close>

definition core_invariant :: "db \<Rightarrow> bool" where
  "core_invariant s \<longleftrightarrow>
     (\<forall>t \<in> set (tasks s). total_quantity t = sum_quantity s (variant_id t) \<and>
                          made_quantity t = sum_fulfilled s (variant_id t))"

definition consistent :: "db \<Rightarrow> bool" where
  "consistent s \<longleftrightarrow>
     core_invariant s \<and>
     distinct (map order_id (orders s)) \<and>
     distinct (map line_item_id (order_line_items s)) \<and>
     (\<forall>li \<in> set (order_line_items s).
        0 \<le> fulfilled_quantity li \<and> fulfilled_quantity li \<le> quantity li) \<and>
     (\<forall>li \<in> set (order_line_items s).
        active s li \<and> quantity li \<noteq> 0 \<longrightarrow> li_variant_id li \<in> variant_id ` set (tasks s))"


section \<open>Example databases\<close>

text \<open>The rows of the repository's tests, used to instantiate the results below.\<close>

definition ex_task :: task where
  "ex_task = \<lparr>variant_id = ''variant-1'', variant_title = ''Red'', product_title = ''T-Shirt'',
     sku = [], image_url = None, total_quantity = 10, made_quantity = 8,
     status = In_progress\<rparr>"

definition ex_db_task :: db where
  "ex_db_task = \<lparr>tasks = [ex_task], orders = [], order_line_items = []\<rparr>"

definition ex_order :: order where
  "ex_order = \<lparr>order_id = ''order-1'', order_name = ''#1001'',
     order_date = ''2025-01-10T10:00:00Z'', total_items = 5, fulfilled_items = 3,
     ostatus = OIn_progress\<rparr>"

definition ex_line :: line_item where
  "ex_line = \<lparr>line_item_id = ''line-1'', li_order_id = ''order-1'',
     li_variant_id = ''variant-1'', li_variant_title = ''Red'', li_product_title = ''T-Shirt'',
     li_sku = [], li_image_url = None, quantity = 5, fulfilled_quantity = 3\<rparr>"

definition ex_db :: db where
  "ex_db = \<lparr>tasks = [ex_task], orders = [ex_order], order_line_items = [ex_line]\<rparr>"

definition ex_order2 :: order where
  "ex_order2 = \<lparr>order_id = ''order-2'', order_name = ''#1002'',
     order_date = ''2025-01-11T10:00:00Z'', total_items = 2, fulfilled_items = 0,
     ostatus = OPending\<rparr>"

definition ex_line2 :: line_item where
  "ex_line2 = \<lparr>line_item_id = ''line-2'', li_order_id = ''order-2'',
     li_variant_id = ''variant-1'', li_variant_title = ''Red'', li_product_title = ''T-Shirt'',
     li_sku = [], li_image_url = None, quantity = 2, fulfilled_quantity = 0\<rparr>"

definition ex_db_sync :: db where
  "ex_db_sync = \<lparr>tasks = [ex_task\<lparr>total_quantity := 7, made_quantity := 3\<rparr>],
     orders = [ex_order, ex_order2], order_line_items = [ex_line, ex_line2]\<rparr>"

definition ex_fetched :: "(order \<times> line_item list) list" where
  \<comment> \<open>a fetch that returns both orders again, with other names and quantities\<close>
  "ex_fetched =
     [(ex_order\<lparr>order_name := ''#1001-new'', total_items := 9, fulfilled_items := 0\<rparr>,
       [ex_line\<lparr>quantity := 9, fulfilled_quantity := 0\<rparr>]),
      (ex_order2\<lparr>order_name := ''#1002-new'', total_items := 4\<rparr>,
       [ex_line2\<lparr>quantity := 4\<rparr>])]"

definition ex_db_stale :: db where
  \<comment> \<open>a task whose variant has no line item left, beside an order in progress\<close>
  "ex_db_stale =
     \<lparr>tasks = [ex_task\<lparr>total_quantity := 5, made_quantity := 3\<rparr>,
               ex_task\<lparr>variant_id := ''variant-9'', total_quantity := 5, made_quantity := 0,
                 status := Pending\<rparr>],
      orders = [ex_order], order_line_items = [ex_line]\<rparr>"

definition ex_order_jan01 :: order where
  "ex_order_jan01 = \<lparr>order_id = ''order-a'', order_name = ''#1'',
     order_date = ''2025-01-01'', total_items = 5, fulfilled_items = 0, ostatus = OPending\<rparr>"

definition ex_order_jan10 :: order where
  "ex_order_jan10 = \<lparr>order_id = ''order-b'', order_name = ''#2'',
     order_date = ''2025-01-10'', total_items = 5, fulfilled_items = 0, ostatus = OPending\<rparr>"

definition ex_line_jan01 :: line_item where
  "ex_line_jan01 = \<lparr>line_item_id = ''line-a'', li_order_id = ''order-a'',
     li_variant_id = ''variant-1'', li_variant_title = ''Red'', li_product_title = ''T-Shirt'',
     li_sku = [], li_image_url = None, quantity = 5, fulfilled_quantity = 0\<rparr>"

definition ex_line_jan10 :: line_item where
  "ex_line_jan10 = \<lparr>line_item_id = ''line-b'', li_order_id = ''order-b'',
     li_variant_id = ''variant-1'', li_variant_title = ''Red'', li_product_title = ''T-Shirt'',
     li_sku = [], li_image_url = None, quantity = 5, fulfilled_quantity = 0\<rparr>"

definition ex_db_fifo :: db where
  \<comment> \<open>the order of 2025-01-10 was stored before the order of 2025-01-01\<close>
  "ex_db_fifo =
     \<lparr>tasks = [ex_task\<lparr>total_quantity := 10, made_quantity := 0, status := Pending\<rparr>],
      orders = [ex_order_jan10, ex_order_jan01],
      order_line_items = [ex_line_jan10, ex_line_jan01]\<rparr>"

definition ex_db_progress :: db where
  \<comment> \<open>the two orders after three units of the variant were recorded and allocated\<close>
  "ex_db_progress =
     \<lparr>tasks = [ex_task\<lparr>total_quantity := 10, made_quantity := 3\<rparr>],
      orders = [ex_order_jan10, ex_order_jan01\<lparr>fulfilled_items := 3, ostatus := OIn_progress\<rparr>],
      order_line_items = [ex_line_jan10, ex_line_jan01\<lparr>fulfilled_quantity := 3\<rparr>]\<rparr>"

definition ex_db_fulfilled :: db where
  \<comment> \<open>the order of 2025-01-01 is completely fulfilled\<close>
  "ex_db_fulfilled =
     \<lparr>tasks = [ex_task\<lparr>total_quantity := 10, made_quantity := 5\<rparr>],
      orders = [ex_order_jan10, ex_order_jan01\<lparr>fulfilled_items := 5, ostatus := Fulfilled\<rparr>],
      order_line_items = [ex_line_jan10, ex_line_jan01\<lparr>fulfilled_quantity := 5\<rparr>]\<rparr>"

definition ex_db_drift :: db where
  \<comment> \<open>that order still counts 5 fulfilled items while its line item has none\<close>
  "ex_db_drift =
     \<lparr>tasks = [ex_task\<lparr>total_quantity := 10, made_quantity := 0, status := Pending\<rparr>],
      orders = [ex_order_jan10, ex_order_jan01\<lparr>fulfilled_items := 5, ostatus := Fulfilled\<rparr>],
      order_line_items = [ex_line_jan10, ex_line_jan01]\<rparr>"

section \<open>Results\<close>

declare if_image_distrib [simp del]

subsection \<open>Tables under the statements\<close>

lemma tables_update_tasks [simp]:
  "tasks (update_tasks sel f s) = map (\<lambda>t. if sel t then f t else t) (tasks s)"
  "orders (update_tasks sel f s) = orders s"
  "order_line_items (update_tasks sel f s) = order_line_items s"
  by (simp_all add: update_tasks_def)

lemma tables_update_orders [simp]:
  "tasks (update_orders sel g s) = tasks s"
  "orders (update_orders sel g s) = map (\<lambda>r. if sel r then g r else r) (orders s)"
  "order_line_items (update_orders sel g s) = order_line_items s"
  by (simp_all add: update_orders_def)

lemma tables_update_line_items [simp]:
  "tasks (update_line_items sel h s) = tasks s"
  "orders (update_line_items sel h s) = orders s"
  "order_line_items (update_line_items sel h s) =
     map (\<lambda>li. if sel li then h li else li) (order_line_items s)"
  by (simp_all add: update_line_items_def)

lemma tables_delete_tasks [simp]:
  "tasks (delete_tasks sel s) = filter (\<lambda>t. \<not> sel t) (tasks s)"
  "orders (delete_tasks sel s) = orders s"
  "order_line_items (delete_tasks sel s) = order_line_items s"
  by (simp_all add: delete_tasks_def)

lemma tables_insert_task [simp]:
  "tasks (insert_task t s) = tasks s @ [t]"
  "orders (insert_task t s) = orders s"
  "order_line_items (insert_task t s) = order_line_items s"
  by (simp_all add: insert_task_def)

lemma tables_updateTaskStatus [simp]:
  "orders (updateTaskStatus s v) = orders s"
  "order_line_items (updateTaskStatus s v) = order_line_items s"
  by (simp_all add: updateTaskStatus_def)

lemma update_tasks_none:
  "\<forall>t \<in> set (tasks s). \<not> sel t \<Longrightarrow> update_tasks sel f s = s"
  by (simp add: update_tasks_def map_idI)

lemma find_None_no_task:
  "getTaskByVariantId s v = None \<Longrightarrow> \<forall>t \<in> set (tasks s). variant_id t \<noteq> v"
  by (simp add: getTaskByVariantId_def find_None_iff)

lemma getTask_Some_variant:
  "getTaskByVariantId s v = Some t \<Longrightarrow> variant_id t = v \<and> t \<in> set (tasks s)"
  unfolding getTaskByVariantId_def find_Some_iff by auto

lemma find_map_upd:
  assumes "find P xs = Some x" and "\<And>y. P (f y) = P y"
  shows "find P (map (\<lambda>y. if P y then f y else y) xs) = Some (f x)"
  using assms(1) by (induction xs) (auto simp: assms(2))

lemma find_map_upd_None:
  assumes "find P xs = None" and "\<And>y. P (f y) = P y"
  shows "find P (map (\<lambda>y. if Q y then f y else y) xs) = None"
  using assms(1) by (induction xs) (auto simp: assms(2) split: if_splits)

lemma getTask_update_tasks:
  assumes "getTaskByVariantId s v = Some t" and "\<And>t. variant_id (f t) = variant_id t"
  shows "getTaskByVariantId (update_tasks (\<lambda>t. variant_id t = v) f s) v = Some (f t)"
  using assms find_map_upd[of "\<lambda>t. variant_id t = v" "tasks s" t f]
  by (simp add: getTaskByVariantId_def)

lemma getTask_updateTaskStatus:
  assumes "getTaskByVariantId s v = Some t"
  shows "getTaskByVariantId (updateTaskStatus s v) v =
           Some (t\<lparr>status := deriveTaskStatus (made_quantity t) (total_quantity t)\<rparr>)"
  unfolding updateTaskStatus_def using assms by (rule getTask_update_tasks) simp

lemma updateTaskStatus_none:
  "getTaskByVariantId s v = None \<Longrightarrow> updateTaskStatus s v = s"
  unfolding updateTaskStatus_def by (rule update_tasks_none) (rule find_None_no_task)

subsection \<open>Task status derivation\<close>

lemma updateTaskStatus_sets:
  "\<forall>t \<in> set (tasks (updateTaskStatus s v)). variant_id t = v \<longrightarrow>
     status t = deriveTaskStatus (made_quantity t) (total_quantity t)"
  by (simp add: updateTaskStatus_def)

text \<open>
  C7. For non-negative \<open>made\<close> and \<open>tot\<close>, the status that \<^verbatim>\<open>updateTaskStatus\<close> of
  \<^verbatim>\<open>database.js\<close> stores is pending when \<open>made = 0\<close> (also when \<open>tot = 0\<close>), completed
  when \<open>made \<ge> tot\<close> and \<open>made > 0\<close>, and in progress otherwise. The inline derivation of
  the test double agrees with it everywhere except at \<open>made = 0\<close>, \<open>tot = 0\<close>, where it
  yields completed.
\<close>

theorem deriveTaskStatus_three_way:
  assumes "0 \<le> made" and "0 \<le> tot"
  shows "(made = 0 \<longrightarrow> deriveTaskStatus made tot = Pending) \<and>
         (made > 0 \<and> made \<ge> tot \<longrightarrow> deriveTaskStatus made tot = Completed) \<and>
         (made > 0 \<and> made < tot \<longrightarrow> deriveTaskStatus made tot = In_progress) \<and>
         (\<forall>t \<in> set (tasks (updateTaskStatus s v)). variant_id t = v \<longrightarrow>
            status t = deriveTaskStatus (made_quantity t) (total_quantity t)) \<and>
         (deriveTaskStatus_helper made tot = deriveTaskStatus made tot
            \<longleftrightarrow> \<not> (made = 0 \<and> tot = 0)) \<and>
         (made = 0 \<and> tot = 0 \<longrightarrow> deriveTaskStatus_helper made tot = Completed)"
proof -
  have "(made = 0 \<longrightarrow> deriveTaskStatus made tot = Pending) \<and>
         (made > 0 \<and> made \<ge> tot \<longrightarrow> deriveTaskStatus made tot = Completed) \<and>
         (made > 0 \<and> made < tot \<longrightarrow> deriveTaskStatus made tot = In_progress) \<and>
         (deriveTaskStatus_helper made tot = deriveTaskStatus made tot
            \<longleftrightarrow> \<not> (made = 0 \<and> tot = 0)) \<and>
         (made = 0 \<and> tot = 0 \<longrightarrow> deriveTaskStatus_helper made tot = Completed)"
    using assms by (simp add: deriveTaskStatus_def deriveTaskStatus_helper_def)
  then show ?thesis using updateTaskStatus_sets[of s v] by blast
qed

theorem deriveTaskStatus_three_way_witness:
  "deriveTaskStatus 0 0 = Pending \<and> deriveTaskStatus_helper 0 0 = Completed \<and>
   deriveTaskStatus_helper 0 0 \<noteq> deriveTaskStatus 0 0"
  using deriveTaskStatus_three_way[of 0 0] by simp

subsection \<open>Recording production\<close>

lemma updateMadeQuantity_ok:
  assumes "getTaskByVariantId s v = Some t" and "made_quantity t + qty \<le> total_quantity t"
  shows "\<exists>s'. updateMadeQuantity s v qty = Inr s' \<and>
           getTaskByVariantId s' v =
             Some (t\<lparr>made_quantity := made_quantity t + qty,
                     status := deriveTaskStatus (made_quantity t + qty) (total_quantity t)\<rparr>)"
proof -
  let ?s1 = "update_tasks (\<lambda>t. variant_id t = v)
               (\<lambda>t. t\<lparr>made_quantity := made_quantity t + qty\<rparr>) s"
  have 1: "getTaskByVariantId ?s1 v = Some (t\<lparr>made_quantity := made_quantity t + qty\<rparr>)"
    using assms(1) by (rule getTask_update_tasks) simp
  have "updateMadeQuantity s v qty = Inr (updateTaskStatus ?s1 v)"
    using assms by (simp add: updateMadeQuantity_def)
  then show ?thesis using getTask_updateTaskStatus[OF 1] by simp
qed

lemma updateMadeQuantity_helper_ok:
  assumes "getTaskByVariantId s v = Some t"
  shows "\<exists>r s'. updateMadeQuantity_helper s v qty = Inr (r, s') \<and>
           newMade r = min (made_quantity t + qty) (total_quantity t) \<and>
           getTaskByVariantId s' v =
             Some (t\<lparr>made_quantity := min (made_quantity t + qty) (total_quantity t),
                     status := deriveTaskStatus_helper
                       (min (made_quantity t + qty) (total_quantity t)) (total_quantity t)\<rparr>)"
proof -
  let ?nm = "min (made_quantity t + qty) (total_quantity t)"
  let ?st = "deriveTaskStatus_helper ?nm (total_quantity t)"
  have "getTaskByVariantId (update_tasks (\<lambda>t. variant_id t = v)
            (\<lambda>t. t\<lparr>made_quantity := ?nm, status := ?st\<rparr>) s) v
          = Some (t\<lparr>made_quantity := ?nm, status := ?st\<rparr>)"
    using assms by (rule getTask_update_tasks) simp
  then show ?thesis using assms by (simp add: updateMadeQuantity_helper_def Let_def)
qed

text \<open>
  C2 (as amended). For a positive \<open>qty\<close>: both \<^verbatim>\<open>updateMadeQuantity\<close> fail with the
  not-found error when the variant has no task. For an existing task, \<^verbatim>\<open>updateMadeQuantity\<close>
  of \<^verbatim>\<open>database.js\<close> fails when \<open>made + qty > total\<close>, and the mark-made handler then leaves
  the database as it was; when \<open>made + qty = total\<close> (with \<open>made \<ge> 0\<close>) it succeeds and the
  task is completed; when \<open>made + qty \<le> total\<close> it adds \<open>qty\<close>. \<^verbatim>\<open>updateMadeQuantity\<close> of
  the test double never fails on an existing task: it stores \<open>min (made + qty) total\<close>.
\<close>

theorem updateMadeQuantity_strict_helper_clamps:
  assumes "0 < qty"
  shows "(getTaskByVariantId s v = None \<longrightarrow>
            updateMadeQuantity s v qty = Inl TaskNotFound \<and>
            updateMadeQuantity_helper s v qty = Inl TaskNotFound) \<and>
         (\<forall>t. getTaskByVariantId s v = Some t \<longrightarrow>
            (made_quantity t + qty > total_quantity t \<longrightarrow>
               updateMadeQuantity s v qty = Inl ExceedsTotal \<and> snd (mark_made s v qty) = s) \<and>
            (made_quantity t + qty = total_quantity t \<and> 0 \<le> made_quantity t \<longrightarrow>
               (\<exists>s'. updateMadeQuantity s v qty = Inr s' \<and>
                  getTaskByVariantId s' v =
                    Some (t\<lparr>made_quantity := total_quantity t, status := Completed\<rparr>))) \<and>
            (made_quantity t + qty \<le> total_quantity t \<longrightarrow>
               (\<exists>s'. updateMadeQuantity s v qty = Inr s' \<and>
                  getTaskByVariantId s' v =
                    Some (t\<lparr>made_quantity := made_quantity t + qty,
                      status := deriveTaskStatus (made_quantity t + qty) (total_quantity t)\<rparr>))) \<and>
            (\<exists>r s'. updateMadeQuantity_helper s v qty = Inr (r, s') \<and>
               newMade r = min (made_quantity t + qty) (total_quantity t) \<and>
               getTaskByVariantId s' v =
                 Some (t\<lparr>made_quantity := min (made_quantity t + qty) (total_quantity t),
                   status := deriveTaskStatus_helper
                     (min (made_quantity t + qty) (total_quantity t)) (total_quantity t)\<rparr>)))"
proof (intro conjI allI impI)
  assume "getTaskByVariantId s v = None"
  then show "updateMadeQuantity s v qty = Inl TaskNotFound"
    and "updateMadeQuantity_helper s v qty = Inl TaskNotFound"
    by (simp_all add: updateMadeQuantity_def updateMadeQuantity_helper_def)
next
  fix t assume t: "getTaskByVariantId s v = Some t"
    and ex: "made_quantity t + qty > total_quantity t"
  then show e: "updateMadeQuantity s v qty = Inl ExceedsTotal"
    by (simp add: updateMadeQuantity_def)
  show "snd (mark_made s v qty) = s" by (simp add: mark_made_def e)
next
  fix t assume t: "getTaskByVariantId s v = Some t"
    and eq: "made_quantity t + qty = total_quantity t \<and> 0 \<le> made_quantity t"
  have "deriveTaskStatus (made_quantity t + qty) (total_quantity t) = Completed"
    using eq assms by (simp add: deriveTaskStatus_def)
  then show "\<exists>s'. updateMadeQuantity s v qty = Inr s' \<and>
      getTaskByVariantId s' v = Some (t\<lparr>made_quantity := total_quantity t, status := Completed\<rparr>)"
    using updateMadeQuantity_ok[OF t, of qty] eq by simp
next
  fix t assume t: "getTaskByVariantId s v = Some t"
    and le: "made_quantity t + qty \<le> total_quantity t"
  then show "\<exists>s'. updateMadeQuantity s v qty = Inr s' \<and>
      getTaskByVariantId s' v =
        Some (t\<lparr>made_quantity := made_quantity t + qty,
                status := deriveTaskStatus (made_quantity t + qty) (total_quantity t)\<rparr>)"
    by (rule updateMadeQuantity_ok)
next
  fix t assume t: "getTaskByVariantId s v = Some t"
  then show "\<exists>r s'. updateMadeQuantity_helper s v qty = Inr (r, s') \<and>
      newMade r = min (made_quantity t + qty) (total_quantity t) \<and>
      getTaskByVariantId s' v =
        Some (t\<lparr>made_quantity := min (made_quantity t + qty) (total_quantity t),
          status := deriveTaskStatus_helper
            (min (made_quantity t + qty) (total_quantity t)) (total_quantity t)\<rparr>)"
    by (rule updateMadeQuantity_helper_ok)
qed

theorem updateMadeQuantity_strict_helper_clamps_witness:
  "(0::int) < 2 \<and> getTaskByVariantId ex_db_task ''variant-1'' = Some ex_task \<and>
   made_quantity ex_task + 2 = total_quantity ex_task \<and>
   updateMadeQuantity ex_db_task ''variant-1'' 2 =
     Inr (ex_db_task\<lparr>tasks := [ex_task\<lparr>made_quantity := 10, status := Completed\<rparr>]\<rparr>) \<and>
   updateMadeQuantity ex_db_task ''variant-2'' 2 = Inl TaskNotFound"
  using updateMadeQuantity_strict_helper_clamps[of 2 ex_db_task "''variant-1''"]
    updateMadeQuantity_strict_helper_clamps[of 2 ex_db_task "''variant-2''"]
  by (simp add: ex_db_task_def ex_task_def getTaskByVariantId_def updateMadeQuantity_def
      updateTaskStatus_def update_tasks_def deriveTaskStatus_def)

text \<open>
  The test double at the input of its own test "caps at total_quantity": a task with
  \<open>made = 8\<close> of \<open>total = 10\<close> and \<open>qty = 5\<close> does not fail; it stores \<open>made = 10\<close>.
\<close>

theorem updateMadeQuantity_helper_clamps_counterexample:
  "made_quantity ex_task + 5 > total_quantity ex_task \<and>
   updateMadeQuantity_helper ex_db_task ''variant-1'' 5 \<noteq> Inl ExceedsTotal \<and>
   updateMadeQuantity_helper ex_db_task ''variant-1'' 5 =
     Inr (\<lparr>previousMade = 8, newMade = 10, actualAdded = 2, newStatus = Completed\<rparr>,
          ex_db_task\<lparr>tasks := [ex_task\<lparr>made_quantity := 10, status := Completed\<rparr>]\<rparr>)"
  by (simp add: ex_db_task_def ex_task_def getTaskByVariantId_def updateMadeQuantity_helper_def
      update_tasks_def deriveTaskStatus_helper_def)

subsection \<open>Resetting a task\<close>

lemma resetTask_present:
  assumes "getTaskByVariantId s v = Some t"
  shows "getTaskByVariantId (resetTask s v) v = Some (t\<lparr>made_quantity := 0, status := Pending\<rparr>)"
proof -
  have "getTaskByVariantId (update_tasks (\<lambda>t. variant_id t = v) (\<lambda>t. t\<lparr>made_quantity := 0\<rparr>) s) v
          = Some (t\<lparr>made_quantity := 0\<rparr>)"
    using assms by (rule getTask_update_tasks) simp
  from getTask_updateTaskStatus[OF this] show ?thesis
    by (simp add: resetTask_def deriveTaskStatus_def)
qed

lemma resetTask_helper_present:
  assumes "getTaskByVariantId s v = Some t"
  shows "getTaskByVariantId (snd (resetTask_helper s v)) v =
           Some (t\<lparr>made_quantity := 0, status := Pending\<rparr>)"
  unfolding resetTask_helper_def snd_conv using assms by (rule getTask_update_tasks) simp

lemma resetTask_rows:
  "\<forall>t \<in> set (tasks (resetTask s v)). variant_id t = v \<longrightarrow>
     made_quantity t = 0 \<and> status t = Pending"
  by (simp add: resetTask_def updateTaskStatus_def deriveTaskStatus_def)

lemma resetTask_helper_rows:
  "\<forall>t \<in> set (tasks (snd (resetTask_helper s v))). variant_id t = v \<longrightarrow>
     made_quantity t = 0 \<and> status t = Pending"
  by (simp add: resetTask_helper_def)

lemma resetTask_absent:
  assumes "getTaskByVariantId s v = None"
  shows "resetTask s v = s" and "resetTask_helper s v = (True, s)"
proof -
  have n: "\<forall>t \<in> set (tasks s). \<not> variant_id t = v" using assms by (rule find_None_no_task)
  have 1: "update_tasks (\<lambda>t. variant_id t = v) f s = s" for f
    using n by (rule update_tasks_none)
  show "resetTask s v = s" by (simp add: resetTask_def updateTaskStatus_def 1)
  show "resetTask_helper s v = (True, s)" by (simp add: resetTask_helper_def 1)
qed

text \<open>
  C10. \<^verbatim>\<open>resetTask\<close> on a variant without a task row returns \<open>True\<close> (test double) and
  leaves the database as it is (both files), whereas \<^verbatim>\<open>updateMadeQuantity\<close> fails with the
  not-found error there; on an existing task \<^verbatim>\<open>resetTask\<close> always returns \<open>True\<close> and
  stores \<open>made = 0\<close> and status pending, in every row of the variant.
\<close>

theorem resetTask_absent_present:
  "(getTaskByVariantId s v = None \<longrightarrow>
      resetTask_helper s v = (True, s) \<and> resetTask s v = s \<and>
      updateMadeQuantity_helper s v qty = Inl TaskNotFound \<and>
      updateMadeQuantity s v qty = Inl TaskNotFound) \<and>
   (\<forall>t. getTaskByVariantId s v = Some t \<longrightarrow>
      fst (resetTask_helper s v) = True \<and>
      getTaskByVariantId (snd (resetTask_helper s v)) v =
        Some (t\<lparr>made_quantity := 0, status := Pending\<rparr>) \<and>
      getTaskByVariantId (resetTask s v) v = Some (t\<lparr>made_quantity := 0, status := Pending\<rparr>)) \<and>
   (\<forall>t \<in> set (tasks (snd (resetTask_helper s v))). variant_id t = v \<longrightarrow>
      made_quantity t = 0 \<and> status t = Pending) \<and>
   (\<forall>t \<in> set (tasks (resetTask s v)). variant_id t = v \<longrightarrow>
      made_quantity t = 0 \<and> status t = Pending)"
proof (intro conjI allI impI)
  assume n: "getTaskByVariantId s v = None"
  show "resetTask_helper s v = (True, s)" and "resetTask s v = s"
    using resetTask_absent[OF n] by simp_all
  show "updateMadeQuantity_helper s v qty = Inl TaskNotFound"
    and "updateMadeQuantity s v qty = Inl TaskNotFound"
    using n by (simp_all add: updateMadeQuantity_def updateMadeQuantity_helper_def)
next
  fix t assume t: "getTaskByVariantId s v = Some t"
  show "fst (resetTask_helper s v) = True" by (simp add: resetTask_helper_def)
  show "getTaskByVariantId (snd (resetTask_helper s v)) v =
        Some (t\<lparr>made_quantity := 0, status := Pending\<rparr>)"
    using t by (rule resetTask_helper_present)
  show "getTaskByVariantId (resetTask s v) v = Some (t\<lparr>made_quantity := 0, status := Pending\<rparr>)"
    using t by (rule resetTask_present)
next
  show "\<forall>t \<in> set (tasks (snd (resetTask_helper s v))). variant_id t = v \<longrightarrow>
      made_quantity t = 0 \<and> status t = Pending"
    by (rule resetTask_helper_rows)
  show "\<forall>t \<in> set (tasks (resetTask s v)). variant_id t = v \<longrightarrow>
      made_quantity t = 0 \<and> status t = Pending"
    by (rule resetTask_rows)
qed

theorem resetTask_absent_present_witness:
  "getTaskByVariantId ex_db_task ''variant-2'' = None \<and>
   resetTask_helper ex_db_task ''variant-2'' = (True, ex_db_task) \<and>
   updateMadeQuantity_helper ex_db_task ''variant-2'' 1 = Inl TaskNotFound \<and>
   getTaskByVariantId ex_db_task ''variant-1'' = Some ex_task \<and>
   fst (resetTask_helper ex_db_task ''variant-1'') = True \<and>
   getTaskByVariantId (snd (resetTask_helper ex_db_task ''variant-1'')) ''variant-1'' =
     Some (ex_task\<lparr>made_quantity := 0, status := Pending\<rparr>) \<and>
   getTaskByVariantId (resetTask ex_db_task ''variant-1'') ''variant-1'' =
     Some (ex_task\<lparr>made_quantity := 0, status := Pending\<rparr>)"
proof -
  have n: "getTaskByVariantId ex_db_task ''variant-2'' = None"
    by (simp add: ex_db_task_def ex_task_def getTaskByVariantId_def)
  have p: "getTaskByVariantId ex_db_task ''variant-1'' = Some ex_task"
    by (simp add: ex_db_task_def ex_task_def getTaskByVariantId_def)
  show ?thesis
    using resetTask_absent_present[of ex_db_task "''variant-2''" 1]
      resetTask_absent_present[of ex_db_task "''variant-1''" 1] n p
    by blast
qed

subsection \<open>Upserts\<close>

lemma map_upd_id:
  "\<forall>y \<in> set xs. \<not> c y \<Longrightarrow> map (\<lambda>y. if c y then g y else y) xs = xs"
  by (induction xs) simp_all

lemma map_field_upd:
  "(\<And>y. h (g y) = h y) \<Longrightarrow> map h (map (\<lambda>y. if c y then g y else y) xs) = map h xs"
  by (induction xs) simp_all

lemma filter_map_other:
  "(\<And>y. c y \<Longrightarrow> \<not> P y \<and> \<not> P (g y)) \<Longrightarrow>
   filter P (map (\<lambda>y. if c y then g y else y) xs) = filter P xs"
  by (induction xs) simp_all

lemma find_None_set: "find P xs = None \<Longrightarrow> \<forall>y \<in> set xs. \<not> P y"
  by (simp add: find_None_iff)

lemma upsertTask_tasks_existing:
  assumes "getTaskByVariantId s (variant_id x) = Some t"
  shows "tasks (upsertTask s x) =
           map (\<lambda>t. if variant_id t = variant_id x
                 then t\<lparr>variant_title := variant_title x, product_title := product_title x,
                        sku := sku x, image_url := or_null (image_url x),
                        total_quantity := total_quantity x,
                        status := deriveTaskStatus (made_quantity t) (total_quantity x)\<rparr>
                 else t) (tasks s)"
  using assms by (simp add: upsertTask_def updateTaskStatus_def)

lemma upsertTask_tasks_absent:
  assumes "getTaskByVariantId s (variant_id x) = None"
  shows "tasks (upsertTask s x) =
           tasks s @ [\<lparr>variant_id = variant_id x, variant_title = variant_title x,
              product_title = product_title x, sku = sku x,
              image_url = or_null (image_url x), total_quantity = total_quantity x,
              made_quantity = 0, status = Pending\<rparr>]"
  using assms find_None_no_task[OF assms]
  by (simp add: upsertTask_def updateTaskStatus_def map_upd_id deriveTaskStatus_def)

lemma upsertTask_helper_tasks_existing:
  assumes "getTaskByVariantId s (variant_id x) = Some t"
  shows "tasks (upsertTask_helper s x) =
           map (\<lambda>t. if variant_id t = variant_id x
                 then t\<lparr>variant_title := variant_title x, product_title := product_title x,
                        sku := sku x, image_url := or_null (image_url x),
                        total_quantity := total_quantity x\<rparr>
                 else t) (tasks s)"
  using assms by (simp add: upsertTask_helper_def)

lemma upsertTask_helper_tasks_absent:
  assumes "getTaskByVariantId s (variant_id x) = None"
  shows "tasks (upsertTask_helper s x) =
           tasks s @ [\<lparr>variant_id = variant_id x, variant_title = variant_title x,
              product_title = product_title x, sku = sku x,
              image_url = or_null (image_url x), total_quantity = total_quantity x,
              made_quantity = made_quantity x, status = status x\<rparr>]"
  using assms by (simp add: upsertTask_helper_def)

lemma upsertTask_frame:
  "map made_quantity (take (length (tasks s)) (tasks (upsertTask s x))) =
     map made_quantity (tasks s)"
  "filter (\<lambda>t. variant_id t \<noteq> variant_id x) (tasks (upsertTask s x)) =
     filter (\<lambda>t. variant_id t \<noteq> variant_id x) (tasks s)"
  "orders (upsertTask s x) = orders s"
  "order_line_items (upsertTask s x) = order_line_items s"
proof -
  show "map made_quantity (take (length (tasks s)) (tasks (upsertTask s x))) =
     map made_quantity (tasks s)"
    by (cases "getTaskByVariantId s (variant_id x)")
       (simp_all add: upsertTask_tasks_existing upsertTask_tasks_absent map_field_upd)
  show "filter (\<lambda>t. variant_id t \<noteq> variant_id x) (tasks (upsertTask s x)) =
     filter (\<lambda>t. variant_id t \<noteq> variant_id x) (tasks s)"
    by (cases "getTaskByVariantId s (variant_id x)")
       (simp_all add: upsertTask_tasks_existing upsertTask_tasks_absent filter_map_other)
  show "orders (upsertTask s x) = orders s" "order_line_items (upsertTask s x) = order_line_items s"
    by (simp_all add: upsertTask_def split: option.split)
qed

lemma upsertTask_helper_frame:
  "map made_quantity (take (length (tasks s)) (tasks (upsertTask_helper s x))) =
     map made_quantity (tasks s)"
  "map status (take (length (tasks s)) (tasks (upsertTask_helper s x))) = map status (tasks s)"
  "filter (\<lambda>t. variant_id t \<noteq> variant_id x) (tasks (upsertTask_helper s x)) =
     filter (\<lambda>t. variant_id t \<noteq> variant_id x) (tasks s)"
proof -
  show "map made_quantity (take (length (tasks s)) (tasks (upsertTask_helper s x))) =
     map made_quantity (tasks s)"
    by (cases "getTaskByVariantId s (variant_id x)")
       (simp_all add: upsertTask_helper_tasks_existing upsertTask_helper_tasks_absent map_field_upd)
  show "map status (take (length (tasks s)) (tasks (upsertTask_helper s x))) = map status (tasks s)"
    by (cases "getTaskByVariantId s (variant_id x)")
       (simp_all add: upsertTask_helper_tasks_existing upsertTask_helper_tasks_absent map_field_upd)
  show "filter (\<lambda>t. variant_id t \<noteq> variant_id x) (tasks (upsertTask_helper s x)) =
     filter (\<lambda>t. variant_id t \<noteq> variant_id x) (tasks s)"
    by (cases "getTaskByVariantId s (variant_id x)")
       (simp_all add: upsertTask_helper_tasks_existing upsertTask_helper_tasks_absent
          filter_map_other)
qed

lemma upsertTask_existing:
  assumes "getTaskByVariantId s (variant_id x) = Some t"
  shows "getTaskByVariantId (upsertTask s x) (variant_id x) =
           Some (t\<lparr>variant_title := variant_title x, product_title := product_title x,
                   sku := sku x, image_url := or_null (image_url x),
                   total_quantity := total_quantity x,
                   status := deriveTaskStatus (made_quantity t) (total_quantity x)\<rparr>)"
    and "getTaskByVariantId (upsertTask_helper s x) (variant_id x) =
           Some (t\<lparr>variant_title := variant_title x, product_title := product_title x,
                   sku := sku x, image_url := or_null (image_url x),
                   total_quantity := total_quantity x\<rparr>)"
proof -
  show "getTaskByVariantId (upsertTask s x) (variant_id x) =
           Some (t\<lparr>variant_title := variant_title x, product_title := product_title x,
                   sku := sku x, image_url := or_null (image_url x),
                   total_quantity := total_quantity x,
                   status := deriveTaskStatus (made_quantity t) (total_quantity x)\<rparr>)"
    using find_map_upd[of "\<lambda>t. variant_id t = variant_id x" "tasks s" t
      "\<lambda>t. t\<lparr>variant_title := variant_title x, product_title := product_title x,
                        sku := sku x, image_url := or_null (image_url x),
                        total_quantity := total_quantity x,
                        status := deriveTaskStatus (made_quantity t) (total_quantity x)\<rparr>"] assms
    by (simp add: upsertTask_tasks_existing[OF assms] getTaskByVariantId_def)
  show "getTaskByVariantId (upsertTask_helper s x) (variant_id x) =
           Some (t\<lparr>variant_title := variant_title x, product_title := product_title x,
                   sku := sku x, image_url := or_null (image_url x),
                   total_quantity := total_quantity x\<rparr>)"
    using find_map_upd[of "\<lambda>t. variant_id t = variant_id x" "tasks s" t
      "\<lambda>t. t\<lparr>variant_title := variant_title x, product_title := product_title x,
                        sku := sku x, image_url := or_null (image_url x),
                        total_quantity := total_quantity x\<rparr>"] assms
    by (simp add: upsertTask_helper_tasks_existing[OF assms] getTaskByVariantId_def)
qed

lemma upsertOrder_orders:
  "getOrderByOrderId s (order_id x) = Some r \<Longrightarrow>
     orders (upsertOrder s x) =
       map (\<lambda>r. if order_id r = order_id x
             then r\<lparr>order_name := order_name x, order_date := order_date x,
                    total_items := total_items x\<rparr> else r) (orders s) \<and>
     orders (upsertOrder_helper s x) = orders (upsertOrder s x)"
  "getOrderByOrderId s (order_id x) = None \<Longrightarrow>
     orders (upsertOrder s x) =
       orders s @ [\<lparr>order_id = order_id x, order_name = order_name x,
         order_date = order_date x, total_items = total_items x,
         fulfilled_items = 0, ostatus = OPending\<rparr>] \<and>
     orders (upsertOrder_helper s x) =
       orders s @ [\<lparr>order_id = order_id x, order_name = order_name x,
         order_date = order_date x, total_items = total_items x,
         fulfilled_items = fulfilled_items x, ostatus = ostatus x\<rparr>]"
  by (simp_all add: upsertOrder_def upsertOrder_helper_def)

lemma upsertOrder_frame:
  "map fulfilled_items (take (length (orders s)) (orders (upsertOrder s x))) =
     map fulfilled_items (orders s)"
  "map ostatus (take (length (orders s)) (orders (upsertOrder s x))) = map ostatus (orders s)"
  "filter (\<lambda>r. order_id r \<noteq> order_id x) (orders (upsertOrder s x)) =
     filter (\<lambda>r. order_id r \<noteq> order_id x) (orders s)"
  "map fulfilled_items (take (length (orders s)) (orders (upsertOrder_helper s x))) =
     map fulfilled_items (orders s)"
  "map ostatus (take (length (orders s)) (orders (upsertOrder_helper s x))) =
     map ostatus (orders s)"
  "filter (\<lambda>r. order_id r \<noteq> order_id x) (orders (upsertOrder_helper s x)) =
     filter (\<lambda>r. order_id r \<noteq> order_id x) (orders s)"
  "tasks (upsertOrder s x) = tasks s" "order_line_items (upsertOrder s x) = order_line_items s"
  by (cases "getOrderByOrderId s (order_id x)";
      simp add: upsertOrder_def upsertOrder_helper_def map_field_upd filter_map_other)+

lemma upsertOrder_existing:
  assumes "getOrderByOrderId s (order_id x) = Some r"
  shows "getOrderByOrderId (upsertOrder s x) (order_id x) =
           Some (r\<lparr>order_name := order_name x, order_date := order_date x,
                   total_items := total_items x\<rparr>)"
    and "getOrderByOrderId (upsertOrder_helper s x) (order_id x) =
           Some (r\<lparr>order_name := order_name x, order_date := order_date x,
                   total_items := total_items x\<rparr>)"
  using find_map_upd[of "\<lambda>r. order_id r = order_id x" "orders s" r
      "\<lambda>r. r\<lparr>order_name := order_name x, order_date := order_date x,
                    total_items := total_items x\<rparr>"] assms
  by (simp_all add: upsertOrder_orders(1)[OF assms] getOrderByOrderId_def)

lemma upsertOrderLineItem_items:
  "find (\<lambda>li. line_item_id li = line_item_id x) (order_line_items s) = Some l \<Longrightarrow>
     order_line_items (upsertOrderLineItem s x) =
       map (\<lambda>li. if line_item_id li = line_item_id x then li\<lparr>quantity := quantity x\<rparr> else li)
         (order_line_items s) \<and>
     order_line_items (upsertOrderLineItem_helper s x) =
       order_line_items (upsertOrderLineItem s x)"
  "find (\<lambda>li. line_item_id li = line_item_id x) (order_line_items s) = None \<Longrightarrow>
     order_line_items (upsertOrderLineItem s x) =
       order_line_items s @
         [\<lparr>line_item_id = line_item_id x, li_order_id = li_order_id x,
           li_variant_id = li_variant_id x, li_variant_title = li_variant_title x,
           li_product_title = li_product_title x, li_sku = li_sku x,
           li_image_url = or_null (li_image_url x), quantity = quantity x,
           fulfilled_quantity = 0\<rparr>] \<and>
     order_line_items (upsertOrderLineItem_helper s x) =
       order_line_items s @
         [\<lparr>line_item_id = line_item_id x, li_order_id = li_order_id x,
           li_variant_id = li_variant_id x, li_variant_title = li_variant_title x,
           li_product_title = li_product_title x, li_sku = li_sku x,
           li_image_url = or_null (li_image_url x), quantity = quantity x,
           fulfilled_quantity = fulfilled_quantity x\<rparr>]"
  by (simp_all add: upsertOrderLineItem_def upsertOrderLineItem_helper_def)

lemma upsertOrderLineItem_frame:
  "map fulfilled_quantity
     (take (length (order_line_items s)) (order_line_items (upsertOrderLineItem s x))) =
     map fulfilled_quantity (order_line_items s)"
  "filter (\<lambda>li. line_item_id li \<noteq> line_item_id x) (order_line_items (upsertOrderLineItem s x)) =
     filter (\<lambda>li. line_item_id li \<noteq> line_item_id x) (order_line_items s)"
  "map fulfilled_quantity
     (take (length (order_line_items s)) (order_line_items (upsertOrderLineItem_helper s x))) =
     map fulfilled_quantity (order_line_items s)"
  "filter (\<lambda>li. line_item_id li \<noteq> line_item_id x)
     (order_line_items (upsertOrderLineItem_helper s x)) =
     filter (\<lambda>li. line_item_id li \<noteq> line_item_id x) (order_line_items s)"
  "tasks (upsertOrderLineItem s x) = tasks s" "orders (upsertOrderLineItem s x) = orders s"
  by (cases "find (\<lambda>li. line_item_id li = line_item_id x) (order_line_items s)";
      simp add: upsertOrderLineItem_def upsertOrderLineItem_helper_def map_field_upd
        filter_map_other)+

lemma upsertOrderLineItem_existing:
  assumes "find (\<lambda>li. line_item_id li = line_item_id x) (order_line_items s) = Some l"
  shows "find (\<lambda>li. line_item_id li = line_item_id x)
           (order_line_items (upsertOrderLineItem s x)) = Some (l\<lparr>quantity := quantity x\<rparr>)"
    and "find (\<lambda>li. line_item_id li = line_item_id x)
           (order_line_items (upsertOrderLineItem_helper s x)) = Some (l\<lparr>quantity := quantity x\<rparr>)"
  using find_map_upd[of "\<lambda>li. line_item_id li = line_item_id x" "order_line_items s" l
      "\<lambda>li. li\<lparr>quantity := quantity x\<rparr>"] assms
  by (simp_all add: upsertOrderLineItem_items(1)[OF assms])

text \<open>
  C5. Every upsert, of either file, leaves the stored progress of every row that existed
  before as it was (\<open>made_quantity\<close>; \<open>fulfilled_items\<close> and the order status;
  \<open>fulfilled_quantity\<close>), and leaves every row with another key untouched. When a row with
  the key exists, it is updated in place: a task takes the new titles, sku, image and
  total (and, in \<^verbatim>\<open>database.js\<close>, the status derived from the old \<open>made\<close> and the new
  total), an order its new name, date and total, a line item its new quantity. When none
  exists, one row is appended.
\<close>

theorem upserts_preserve_progress:
  "map made_quantity (take (length (tasks s)) (tasks (upsertTask s x))) =
     map made_quantity (tasks s) \<and>
   map made_quantity (take (length (tasks s)) (tasks (upsertTask_helper s x))) =
     map made_quantity (tasks s) \<and>
   map fulfilled_items (take (length (orders s)) (orders (upsertOrder s y))) =
     map fulfilled_items (orders s) \<and>
   map fulfilled_items (take (length (orders s)) (orders (upsertOrder_helper s y))) =
     map fulfilled_items (orders s) \<and>
   map fulfilled_quantity
     (take (length (order_line_items s)) (order_line_items (upsertOrderLineItem s z))) =
     map fulfilled_quantity (order_line_items s) \<and>
   map fulfilled_quantity
     (take (length (order_line_items s)) (order_line_items (upsertOrderLineItem_helper s z))) =
     map fulfilled_quantity (order_line_items s) \<and>
   filter (\<lambda>t. variant_id t \<noteq> variant_id x) (tasks (upsertTask s x)) =
     filter (\<lambda>t. variant_id t \<noteq> variant_id x) (tasks s) \<and>
   filter (\<lambda>t. variant_id t \<noteq> variant_id x) (tasks (upsertTask_helper s x)) =
     filter (\<lambda>t. variant_id t \<noteq> variant_id x) (tasks s) \<and>
   filter (\<lambda>r. order_id r \<noteq> order_id y) (orders (upsertOrder s y)) =
     filter (\<lambda>r. order_id r \<noteq> order_id y) (orders s) \<and>
   filter (\<lambda>r. order_id r \<noteq> order_id y) (orders (upsertOrder_helper s y)) =
     filter (\<lambda>r. order_id r \<noteq> order_id y) (orders s) \<and>
   filter (\<lambda>li. line_item_id li \<noteq> line_item_id z) (order_line_items (upsertOrderLineItem s z)) =
     filter (\<lambda>li. line_item_id li \<noteq> line_item_id z) (order_line_items s) \<and>
   filter (\<lambda>li. line_item_id li \<noteq> line_item_id z)
     (order_line_items (upsertOrderLineItem_helper s z)) =
     filter (\<lambda>li. line_item_id li \<noteq> line_item_id z) (order_line_items s) \<and>
   (\<forall>t. getTaskByVariantId s (variant_id x) = Some t \<longrightarrow>
      length (tasks (upsertTask s x)) = length (tasks s) \<and>
      length (tasks (upsertTask_helper s x)) = length (tasks s) \<and>
      getTaskByVariantId (upsertTask s x) (variant_id x) =
        Some (t\<lparr>variant_title := variant_title x, product_title := product_title x,
                sku := sku x, image_url := or_null (image_url x),
                total_quantity := total_quantity x,
                status := deriveTaskStatus (made_quantity t) (total_quantity x)\<rparr>) \<and>
      getTaskByVariantId (upsertTask_helper s x) (variant_id x) =
        Some (t\<lparr>variant_title := variant_title x, product_title := product_title x,
                sku := sku x, image_url := or_null (image_url x),
                total_quantity := total_quantity x\<rparr>)) \<and>
   (getTaskByVariantId s (variant_id x) = None \<longrightarrow>
      length (tasks (upsertTask s x)) = Suc (length (tasks s)) \<and>
      length (tasks (upsertTask_helper s x)) = Suc (length (tasks s))) \<and>
   (\<forall>r. getOrderByOrderId s (order_id y) = Some r \<longrightarrow>
      length (orders (upsertOrder s y)) = length (orders s) \<and>
      length (orders (upsertOrder_helper s y)) = length (orders s) \<and>
      getOrderByOrderId (upsertOrder s y) (order_id y) =
        Some (r\<lparr>order_name := order_name y, order_date := order_date y,
                total_items := total_items y\<rparr>) \<and>
      getOrderByOrderId (upsertOrder_helper s y) (order_id y) =
        Some (r\<lparr>order_name := order_name y, order_date := order_date y,
                total_items := total_items y\<rparr>)) \<and>
   (getOrderByOrderId s (order_id y) = None \<longrightarrow>
      length (orders (upsertOrder s y)) = Suc (length (orders s)) \<and>
      length (orders (upsertOrder_helper s y)) = Suc (length (orders s))) \<and>
   (\<forall>l. find (\<lambda>li. line_item_id li = line_item_id z) (order_line_items s) = Some l \<longrightarrow>
      length (order_line_items (upsertOrderLineItem s z)) = length (order_line_items s) \<and>
      length (order_line_items (upsertOrderLineItem_helper s z)) = length (order_line_items s) \<and>
      find (\<lambda>li. line_item_id li = line_item_id z)
        (order_line_items (upsertOrderLineItem s z)) = Some (l\<lparr>quantity := quantity z\<rparr>) \<and>
      find (\<lambda>li. line_item_id li = line_item_id z)
        (order_line_items (upsertOrderLineItem_helper s z)) = Some (l\<lparr>quantity := quantity z\<rparr>)) \<and>
   (find (\<lambda>li. line_item_id li = line_item_id z) (order_line_items s) = None \<longrightarrow>
      length (order_line_items (upsertOrderLineItem s z)) = Suc (length (order_line_items s)) \<and>
      length (order_line_items (upsertOrderLineItem_helper s z)) =
        Suc (length (order_line_items s)))"
proof -
  have a: "\<forall>t. getTaskByVariantId s (variant_id x) = Some t \<longrightarrow>
      length (tasks (upsertTask s x)) = length (tasks s) \<and>
      length (tasks (upsertTask_helper s x)) = length (tasks s)"
    by (simp add: upsertTask_tasks_existing upsertTask_helper_tasks_existing)
  have b: "getTaskByVariantId s (variant_id x) = None \<longrightarrow>
      length (tasks (upsertTask s x)) = Suc (length (tasks s)) \<and>
      length (tasks (upsertTask_helper s x)) = Suc (length (tasks s))"
    by (simp add: upsertTask_tasks_absent upsertTask_helper_tasks_absent)
  have c: "\<forall>r. getOrderByOrderId s (order_id y) = Some r \<longrightarrow>
      length (orders (upsertOrder s y)) = length (orders s) \<and>
      length (orders (upsertOrder_helper s y)) = length (orders s)"
    by (simp add: upsertOrder_def upsertOrder_helper_def)
  have d: "getOrderByOrderId s (order_id y) = None \<longrightarrow>
      length (orders (upsertOrder s y)) = Suc (length (orders s)) \<and>
      length (orders (upsertOrder_helper s y)) = Suc (length (orders s))"
    by (simp add: upsertOrder_def upsertOrder_helper_def)
  have e: "\<forall>l. find (\<lambda>li. line_item_id li = line_item_id z) (order_line_items s) = Some l \<longrightarrow>
      length (order_line_items (upsertOrderLineItem s z)) = length (order_line_items s) \<and>
      length (order_line_items (upsertOrderLineItem_helper s z)) = length (order_line_items s)"
    by (simp add: upsertOrderLineItem_def upsertOrderLineItem_helper_def)
  have f: "find (\<lambda>li. line_item_id li = line_item_id z) (order_line_items s) = None \<longrightarrow>
      length (order_line_items (upsertOrderLineItem s z)) = Suc (length (order_line_items s)) \<and>
      length (order_line_items (upsertOrderLineItem_helper s z)) =
        Suc (length (order_line_items s))"
    by (simp add: upsertOrderLineItem_def upsertOrderLineItem_helper_def)
  show ?thesis
    using a b c d e f upsertTask_frame(1,2)[where s=s and x=x]
      upsertTask_helper_frame(1,3)[where s=s and x=x]
      upsertOrder_frame(1,3,4,6)[where s=s and x=y]
      upsertOrderLineItem_frame(1,2,3,4)[where s=s and x=z]
      upsertTask_existing[where s=s and x=x] upsertOrder_existing[where s=s and x=y]
      upsertOrderLineItem_existing[where s=s and x=z]
    by blast
qed

theorem upserts_preserve_progress_witness:
  "getTaskByVariantId ex_db (variant_id (ex_task\<lparr>total_quantity := 12, made_quantity := 0\<rparr>)) =
     Some ex_task \<and>
   getTaskByVariantId (upsertTask ex_db (ex_task\<lparr>total_quantity := 12, made_quantity := 0\<rparr>))
       ''variant-1'' =
     Some (ex_task\<lparr>total_quantity := 12\<rparr>) \<and>
   getOrderByOrderId ex_db (order_id (ex_order\<lparr>total_items := 7, fulfilled_items := 0\<rparr>)) =
     Some ex_order \<and>
   getOrderByOrderId (upsertOrder ex_db (ex_order\<lparr>total_items := 7, fulfilled_items := 0\<rparr>))
       ''order-1'' =
     Some (ex_order\<lparr>total_items := 7\<rparr>) \<and>
   find (\<lambda>li. line_item_id li = ''line-1'')
       (order_line_items (upsertOrderLineItem ex_db (ex_line\<lparr>quantity := 7, fulfilled_quantity := 0\<rparr>))) =
     Some (ex_line\<lparr>quantity := 7\<rparr>)"
proof -
  have t: "getTaskByVariantId ex_db (variant_id (ex_task\<lparr>total_quantity := 12, made_quantity := 0\<rparr>))
            = Some ex_task"
    by (simp add: ex_db_def ex_task_def getTaskByVariantId_def)
  have r: "getOrderByOrderId ex_db (order_id (ex_order\<lparr>total_items := 7, fulfilled_items := 0\<rparr>))
            = Some ex_order"
    by (simp add: ex_db_def ex_order_def getOrderByOrderId_def)
  have l: "find (\<lambda>li. line_item_id li = line_item_id (ex_line\<lparr>quantity := 7, fulfilled_quantity := 0\<rparr>))
             (order_line_items ex_db) = Some ex_line"
    by (simp add: ex_db_def ex_line_def)
  have eqs: "variant_id (ex_task\<lparr>total_quantity := 12, made_quantity := 0\<rparr>) = ''variant-1''"
    "order_id (ex_order\<lparr>total_items := 7, fulfilled_items := 0\<rparr>) = ''order-1''"
    "line_item_id (ex_line\<lparr>quantity := 7, fulfilled_quantity := 0\<rparr>) = ''line-1''"
    "ex_task\<lparr>variant_title := variant_title (ex_task\<lparr>total_quantity := 12, made_quantity := 0\<rparr>),
       product_title := product_title (ex_task\<lparr>total_quantity := 12, made_quantity := 0\<rparr>),
       sku := sku (ex_task\<lparr>total_quantity := 12, made_quantity := 0\<rparr>),
       image_url := or_null (image_url (ex_task\<lparr>total_quantity := 12, made_quantity := 0\<rparr>)),
       total_quantity := total_quantity (ex_task\<lparr>total_quantity := 12, made_quantity := 0\<rparr>),
       status := deriveTaskStatus (made_quantity ex_task)
         (total_quantity (ex_task\<lparr>total_quantity := 12, made_quantity := 0\<rparr>))\<rparr>
      = ex_task\<lparr>total_quantity := 12\<rparr>"
    "ex_order\<lparr>order_name := order_name (ex_order\<lparr>total_items := 7, fulfilled_items := 0\<rparr>),
       order_date := order_date (ex_order\<lparr>total_items := 7, fulfilled_items := 0\<rparr>),
       total_items := total_items (ex_order\<lparr>total_items := 7, fulfilled_items := 0\<rparr>)\<rparr>
      = ex_order\<lparr>total_items := 7\<rparr>"
    "ex_line\<lparr>quantity := quantity (ex_line\<lparr>quantity := 7, fulfilled_quantity := 0\<rparr>)\<rparr>
      = ex_line\<lparr>quantity := 7\<rparr>"
    by (simp_all add: ex_task_def ex_order_def ex_line_def or_null_def deriveTaskStatus_def)
  from upserts_preserve_progress[of ex_db "ex_task\<lparr>total_quantity := 12, made_quantity := 0\<rparr>"
      "ex_order\<lparr>total_items := 7, fulfilled_items := 0\<rparr>"
      "ex_line\<lparr>quantity := 7, fulfilled_quantity := 0\<rparr>"] t r l
  have "getTaskByVariantId (upsertTask ex_db (ex_task\<lparr>total_quantity := 12, made_quantity := 0\<rparr>))
       (variant_id (ex_task\<lparr>total_quantity := 12, made_quantity := 0\<rparr>)) =
     Some (ex_task\<lparr>variant_title := variant_title (ex_task\<lparr>total_quantity := 12, made_quantity := 0\<rparr>),
       product_title := product_title (ex_task\<lparr>total_quantity := 12, made_quantity := 0\<rparr>),
       sku := sku (ex_task\<lparr>total_quantity := 12, made_quantity := 0\<rparr>),
       image_url := or_null (image_url (ex_task\<lparr>total_quantity := 12, made_quantity := 0\<rparr>)),
       total_quantity := total_quantity (ex_task\<lparr>total_quantity := 12, made_quantity := 0\<rparr>),
       status := deriveTaskStatus (made_quantity ex_task)
         (total_quantity (ex_task\<lparr>total_quantity := 12, made_quantity := 0\<rparr>))\<rparr>)"
    and "getOrderByOrderId (upsertOrder ex_db (ex_order\<lparr>total_items := 7, fulfilled_items := 0\<rparr>))
       (order_id (ex_order\<lparr>total_items := 7, fulfilled_items := 0\<rparr>)) =
     Some (ex_order\<lparr>order_name := order_name (ex_order\<lparr>total_items := 7, fulfilled_items := 0\<rparr>),
       order_date := order_date (ex_order\<lparr>total_items := 7, fulfilled_items := 0\<rparr>),
       total_items := total_items (ex_order\<lparr>total_items := 7, fulfilled_items := 0\<rparr>)\<rparr>)"
    and "find (\<lambda>li. line_item_id li = line_item_id (ex_line\<lparr>quantity := 7, fulfilled_quantity := 0\<rparr>))
       (order_line_items (upsertOrderLineItem ex_db (ex_line\<lparr>quantity := 7, fulfilled_quantity := 0\<rparr>))) =
     Some (ex_line\<lparr>quantity := quantity (ex_line\<lparr>quantity := 7, fulfilled_quantity := 0\<rparr>)\<rparr>)"
    by blast+
  then show ?thesis using t r by (simp only: eqs)
qed

subsection \<open>Reconciliation: the skip set and the safe clear\<close>

lemma foldl_keeps:
  "(\<And>s x. h (f s x) = h s) \<Longrightarrow> h (foldl f s xs) = h s"
  by (induction xs arbitrary: s) simp_all

lemma find_snoc:
  "find P (xs @ [y]) = (case find P xs of None \<Rightarrow> if P y then Some y else None | Some x \<Rightarrow> Some x)"
  by (induction xs) simp_all

lemma distinct_key_eq:
  "distinct (map f xs) \<Longrightarrow> x \<in> set xs \<Longrightarrow> y \<in> set xs \<Longrightarrow> f x = f y \<Longrightarrow> x = y"
  by (auto simp: distinct_map dest: inj_onD)

lemma skip_set:
  "set (getOrderIdsToSkipDuringSync s) =
     order_id ` {r \<in> set (orders s). ostatus r = Archived} \<union>
     order_id ` {r \<in> set (orders s). fulfilled_items r > 0}"
  unfolding getOrderIdsToSkipDuringSync_def by auto

lemma clear_tables:
  "tasks (snd (clearOrdersWithoutProgress s)) = tasks s"
  "orders (snd (clearOrdersWithoutProgress s)) =
     filter (\<lambda>r. \<not> (ostatus r \<noteq> Archived \<and> fulfilled_items r = 0)) (orders s)"
  "order_line_items (snd (clearOrdersWithoutProgress s)) =
     filter (\<lambda>li. li_order_id li \<notin>
               order_id ` {r \<in> set (orders s). ostatus r \<noteq> Archived \<and> fulfilled_items r = 0})
       (order_line_items s)"
  "set (fst (clearOrdersWithoutProgress s)) =
     order_id ` {r \<in> set (orders s). ostatus r \<noteq> Archived \<and> fulfilled_items r > 0}"
proof -
  show "tasks (snd (clearOrdersWithoutProgress s)) = tasks s"
    by (simp add: clearOrdersWithoutProgress_def Let_def)
  show "orders (snd (clearOrdersWithoutProgress s)) =
     filter (\<lambda>r. \<not> (ostatus r \<noteq> Archived \<and> fulfilled_items r = 0)) (orders s)"
    by (simp add: clearOrdersWithoutProgress_def Let_def)
  show "order_line_items (snd (clearOrdersWithoutProgress s)) =
     filter (\<lambda>li. li_order_id li \<notin>
               order_id ` {r \<in> set (orders s). ostatus r \<noteq> Archived \<and> fulfilled_items r = 0})
       (order_line_items s)"
    by (simp add: clearOrdersWithoutProgress_def Let_def)
  show "set (fst (clearOrdersWithoutProgress s)) =
     order_id ` {r \<in> set (orders s). ostatus r \<noteq> Archived \<and> fulfilled_items r > 0}"
    unfolding clearOrdersWithoutProgress_def Let_def by auto
qed

lemma foldl_upsertOrderLineItem_keeps:
  "orders (foldl upsertOrderLineItem s xs) = orders s"
  "tasks (foldl upsertOrderLineItem s xs) = tasks s"
  by (rule foldl_keeps, simp add: upsertOrderLineItem_frame)+

lemma upsertOrder_other_row:
  assumes "r \<in> set (orders s)" and "order_id r \<noteq> order_id x"
  shows "r \<in> set (orders (upsertOrder s x))"
proof -
  have "r \<in> set (filter (\<lambda>r. order_id r \<noteq> order_id x) (orders s))" using assms by simp
  then have "r \<in> set (filter (\<lambda>r. order_id r \<noteq> order_id x) (orders (upsertOrder s x)))"
    by (simp only: upsertOrder_frame(3))
  then show ?thesis by simp
qed

lemma store_order_keeps_row:
  assumes "r \<in> set (orders s)" and "order_id r \<in> set skip"
  shows "r \<in> set (orders (store_order skip s x))"
proof (cases "order_id (fst x) \<in> set skip")
  case True then show ?thesis using assms by (simp add: store_order_def)
next
  case False
  then have "order_id r \<noteq> order_id (fst x)" using assms(2) by auto
  then have "r \<in> set (orders (upsertOrder s (fst x)))"
    using assms(1) by (rule upsertOrder_other_row[rotated])
  then show ?thesis using False
    by (simp add: store_order_def foldl_upsertOrderLineItem_keeps)
qed

lemma foldl_store_order_keeps_row:
  "r \<in> set (orders s) \<Longrightarrow> order_id r \<in> set skip \<Longrightarrow>
   r \<in> set (orders (foldl (store_order skip) s xs))"
  by (induction xs arbitrary: s) (simp_all add: store_order_keeps_row)

lemma orders_after_tasks_steps:
  "orders (foldl upsertTask s xs) = orders s"
  "order_line_items (foldl upsertTask s xs) = order_line_items s"
  "orders (recalculateTaskTotalsFromOrders s) = orders s"
  "order_line_items (recalculateTaskTotalsFromOrders s) = order_line_items s"
proof -
  show "orders (foldl upsertTask s xs) = orders s"
    by (rule foldl_keeps) (simp add: upsertTask_frame)
  show "order_line_items (foldl upsertTask s xs) = order_line_items s"
    by (rule foldl_keeps) (simp add: upsertTask_frame)
  show "orders (recalculateTaskTotalsFromOrders s) = orders s"
    unfolding recalculateTaskTotalsFromOrders_def tables_delete_tasks
    by (rule foldl_keeps) simp
  show "order_line_items (recalculateTaskTotalsFromOrders s) = order_line_items s"
    unfolding recalculateTaskTotalsFromOrders_def tables_delete_tasks
    by (rule foldl_keeps) simp
qed

lemma updateAllOrderStatuses_orders:
  "orders (updateAllOrderStatuses s) =
     map (\<lambda>r. if ostatus r \<noteq> Archived
           then r\<lparr>fulfilled_items := order_fulfilled_sum s (order_id r),
                  ostatus := deriveOrderStatus (order_fulfilled_sum s (order_id r)) (total_items r)\<rparr>
           else r) (orders s)"
  by (simp add: updateAllOrderStatuses_def)

lemma updateAllOrderStatuses_row:
  assumes "r \<in> set (orders s)"
  shows "(if ostatus r \<noteq> Archived
          then r\<lparr>fulfilled_items := order_fulfilled_sum s (order_id r),
                 ostatus := deriveOrderStatus (order_fulfilled_sum s (order_id r)) (total_items r)\<rparr>
          else r) \<in> set (orders (updateAllOrderStatuses s))"
  unfolding updateAllOrderStatuses_orders set_map using assms by (rule imageI)

lemma sync_orders:
  "orders (sync_shopify s aggregated fetched) =
     orders (updateAllOrderStatuses
       (foldl (store_order (getOrderIdsToSkipDuringSync s))
          (snd (clearOrdersWithoutProgress s)) fetched))"
  by (simp add: sync_shopify_def Let_def updateAllOrderStatuses_orders
      order_fulfilled_sum_def getOrderLineItems_def orders_after_tasks_steps)

lemma getOrderLineItems_clear:
  assumes "distinct (map order_id (orders s))" and "r \<in> set (orders s)"
    and "\<not> (ostatus r \<noteq> Archived \<and> fulfilled_items r = 0)"
  shows "getOrderLineItems (snd (clearOrdersWithoutProgress s)) (order_id r) =
           getOrderLineItems s (order_id r)"
proof -
  have n: "order_id r' \<noteq> order_id r"
    if "r' \<in> set (orders s)" "ostatus r' \<noteq> Archived" "fulfilled_items r' = 0" for r'
  proof
    assume "order_id r' = order_id r"
    from distinct_key_eq[OF assms(1) that(1) assms(2) this] have "r' = r" .
    with that(2,3) assms(3) show False by simp
  qed
  show ?thesis
    unfolding getOrderLineItems_def clear_tables filter_filter
    by (intro filter_cong refl) (auto simp: n)
qed

lemma getOrderLineItems_upsert_other:
  assumes "li_order_id z \<noteq> oid"
  shows "map fulfilled_quantity (getOrderLineItems (upsertOrderLineItem s z) oid) =
           map fulfilled_quantity (getOrderLineItems s oid)"
proof (cases "find (\<lambda>li. line_item_id li = line_item_id z) (order_line_items s)")
  case None
  then show ?thesis using assms
    by (simp add: getOrderLineItems_def upsertOrderLineItem_items(2))
next
  case (Some l)
  have "filter (\<lambda>li. li_order_id li = oid)
          (map (\<lambda>li. if line_item_id li = line_item_id z then li\<lparr>quantity := quantity z\<rparr> else li) xs)
        = map (\<lambda>li. if line_item_id li = line_item_id z then li\<lparr>quantity := quantity z\<rparr> else li)
            (filter (\<lambda>li. li_order_id li = oid) xs)" for xs :: "line_item list"
    by (induction xs) simp_all
  then show ?thesis
    by (simp add: getOrderLineItems_def upsertOrderLineItem_items(1)[OF Some] map_field_upd)
qed

lemma getOrderLineItems_foldl_upsert_other:
  "\<forall>z \<in> set zs. li_order_id z \<noteq> oid \<Longrightarrow>
   map fulfilled_quantity (getOrderLineItems (foldl upsertOrderLineItem s zs) oid) =
     map fulfilled_quantity (getOrderLineItems s oid)"
  by (induction zs arbitrary: s) (simp_all add: getOrderLineItems_upsert_other)

lemma store_order_fulfilled:
  assumes "oid \<in> set skip" and "\<forall>li \<in> set (snd x). li_order_id li = order_id (fst x)"
  shows "map fulfilled_quantity (getOrderLineItems (store_order skip s x) oid) =
           map fulfilled_quantity (getOrderLineItems s oid)"
proof (cases "order_id (fst x) \<in> set skip")
  case True then show ?thesis by (simp add: store_order_def)
next
  case False
  then have "\<forall>z \<in> set (snd x). li_order_id z \<noteq> oid" using assms by auto
  from getOrderLineItems_foldl_upsert_other[OF this, of "upsertOrder s (fst x)"]
  show ?thesis using False
    by (simp add: store_order_def getOrderLineItems_def upsertOrder_frame)
qed

lemma foldl_store_order_fulfilled:
  "oid \<in> set skip \<Longrightarrow> \<forall>x \<in> set xs. \<forall>li \<in> set (snd x). li_order_id li = order_id (fst x) \<Longrightarrow>
   map fulfilled_quantity (getOrderLineItems (foldl (store_order skip) s xs) oid) =
     map fulfilled_quantity (getOrderLineItems s oid)"
  by (induction xs arbitrary: s) (simp_all add: store_order_fulfilled)

lemma sync_line_items:
  "order_line_items (sync_shopify s aggregated fetched) =
     order_line_items (foldl (store_order (getOrderIdsToSkipDuringSync s))
          (snd (clearOrdersWithoutProgress s)) fetched)"
  by (simp add: sync_shopify_def Let_def updateAllOrderStatuses_def orders_after_tasks_steps)

lemma in_skip:
  "r \<in> set (orders s) \<Longrightarrow> ostatus r = Archived \<or> fulfilled_items r > 0 \<Longrightarrow>
   order_id r \<in> set (getOrderIdsToSkipDuringSync s)"
  unfolding skip_set by blast

lemma sync_keeps_order:
  assumes "r \<in> set (orders s)" and "ostatus r = Archived \<or> fulfilled_items r > 0"
  shows "(ostatus r = Archived \<longrightarrow> r \<in> set (orders (sync_shopify s aggregated fetched))) \<and>
         (\<exists>r' \<in> set (orders (sync_shopify s aggregated fetched)).
            order_id r' = order_id r \<and> order_name r' = order_name r \<and>
            order_date r' = order_date r \<and> total_items r' = total_items r)"
proof -
  let ?s2 = "foldl (store_order (getOrderIdsToSkipDuringSync s))
               (snd (clearOrdersWithoutProgress s)) fetched"
  have "r \<in> set (orders (snd (clearOrdersWithoutProgress s)))"
    using assms by (auto simp: clear_tables)
  then have "r \<in> set (orders ?s2)"
    using in_skip[OF assms] by (rule foldl_store_order_keeps_row)
  from updateAllOrderStatuses_row[OF this]
  have *: "(if ostatus r \<noteq> Archived
          then r\<lparr>fulfilled_items := order_fulfilled_sum ?s2 (order_id r),
                 ostatus := deriveOrderStatus (order_fulfilled_sum ?s2 (order_id r)) (total_items r)\<rparr>
          else r) \<in> set (orders (sync_shopify s aggregated fetched))"
    by (simp only: sync_orders)
  show ?thesis
  proof (cases "ostatus r = Archived")
    case True
    with * have "r \<in> set (orders (sync_shopify s aggregated fetched))" by simp
    then show ?thesis by blast
  next
    case False
    define r' where "r' = r\<lparr>fulfilled_items := order_fulfilled_sum ?s2 (order_id r),
                 ostatus := deriveOrderStatus (order_fulfilled_sum ?s2 (order_id r)) (total_items r)\<rparr>"
    from * False have "r' \<in> set (orders (sync_shopify s aggregated fetched))"
      by (simp add: r'_def)
    moreover have "order_id r' = order_id r \<and> order_name r' = order_name r \<and>
            order_date r' = order_date r \<and> total_items r' = total_items r"
      by (simp add: r'_def)
    ultimately show ?thesis using False by blast
  qed
qed

lemma sync_keeps_progress_row:
  assumes "distinct (map order_id (orders s))"
    and "\<forall>x \<in> set fetched. \<forall>li \<in> set (snd x). li_order_id li = order_id (fst x)"
    and "r \<in> set (orders s)" and "fulfilled_items r > 0" and "ostatus r \<noteq> Archived"
  shows "r\<lparr>fulfilled_items := order_fulfilled_sum s (order_id r),
           ostatus := deriveOrderStatus (order_fulfilled_sum s (order_id r)) (total_items r)\<rparr>
         \<in> set (orders (sync_shopify s aggregated fetched))"
    and "map fulfilled_quantity
           (getOrderLineItems (sync_shopify s aggregated fetched) (order_id r)) =
         map fulfilled_quantity (getOrderLineItems s (order_id r))"
proof -
  let ?skip = "getOrderIdsToSkipDuringSync s"
  let ?s1 = "snd (clearOrdersWithoutProgress s)"
  let ?s2 = "foldl (store_order ?skip) ?s1 fetched"
  have sk: "order_id r \<in> set ?skip" using assms(3,4) by (intro in_skip) simp_all
  have "r \<in> set (orders ?s1)" using assms(3,4) by (auto simp: clear_tables)
  then have "r \<in> set (orders ?s2)" using sk by (rule foldl_store_order_keeps_row)
  from updateAllOrderStatuses_row[OF this] assms(5)
  have *: "r\<lparr>fulfilled_items := order_fulfilled_sum ?s2 (order_id r),
                 ostatus := deriveOrderStatus (order_fulfilled_sum ?s2 (order_id r)) (total_items r)\<rparr>
          \<in> set (orders (sync_shopify s aggregated fetched))"
    by (simp add: sync_orders)
  have 1: "getOrderLineItems ?s1 (order_id r) = getOrderLineItems s (order_id r)"
    using assms(1,3,4) by (intro getOrderLineItems_clear) simp_all
  have 2: "map fulfilled_quantity (getOrderLineItems ?s2 (order_id r)) =
           map fulfilled_quantity (getOrderLineItems s (order_id r))"
    using foldl_store_order_fulfilled[OF sk assms(2), of ?s1] 1 by simp
  then have 3: "order_fulfilled_sum ?s2 (order_id r) = order_fulfilled_sum s (order_id r)"
    by (simp add: order_fulfilled_sum_def)
  show "r\<lparr>fulfilled_items := order_fulfilled_sum s (order_id r),
           ostatus := deriveOrderStatus (order_fulfilled_sum s (order_id r)) (total_items r)\<rparr>
         \<in> set (orders (sync_shopify s aggregated fetched))"
    using * 3 by simp
  show "map fulfilled_quantity
           (getOrderLineItems (sync_shopify s aggregated fetched) (order_id r)) =
         map fulfilled_quantity (getOrderLineItems s (order_id r))"
    using 2 by (simp add: getOrderLineItems_def sync_line_items)
qed

lemma clear_removes_order:
  assumes "distinct (map order_id (orders s))" and "r \<in> set (orders s)"
    and "ostatus r \<noteq> Archived" and "fulfilled_items r = 0"
  shows "getOrderByOrderId (snd (clearOrdersWithoutProgress s)) (order_id r) = None"
    and "order_id r \<notin> set (getOrderIdsToSkipDuringSync s)"
proof -
  have u: "r' = r" if "r' \<in> set (orders s)" "order_id r' = order_id r" for r'
    using distinct_key_eq[OF assms(1) that(1) assms(2) that(2)] .
  show "getOrderByOrderId (snd (clearOrdersWithoutProgress s)) (order_id r) = None"
    unfolding getOrderByOrderId_def find_None_iff clear_tables using u assms(3,4) by auto
  show "order_id r \<notin> set (getOrderIdsToSkipDuringSync s)"
    unfolding skip_set using u assms(3,4) by auto
qed

lemma store_order_inserts:
  assumes "order_id (fst x) \<notin> set skip" and "getOrderByOrderId s (order_id (fst x)) = None"
  shows "getOrderByOrderId (store_order skip s x) (order_id (fst x)) =
           Some \<lparr>order_id = order_id (fst x), order_name = order_name (fst x),
             order_date = order_date (fst x), total_items = total_items (fst x),
             fulfilled_items = 0, ostatus = OPending\<rparr>"
  using assms
  by (simp add: store_order_def foldl_upsertOrderLineItem_keeps upsertOrder_orders(2)
      getOrderByOrderId_def find_snoc)

subsection \<open>Recalculation of the task totals\<close>

lemma sums_frame:
  "orders s1 = orders s2 \<Longrightarrow> order_line_items s1 = order_line_items s2 \<Longrightarrow>
   active_items_of s1 v = active_items_of s2 v \<and> sum_quantity s1 v = sum_quantity s2 v \<and>
   sum_fulfilled s1 v = sum_fulfilled s2 v"
  by (simp add: sum_quantity_def sum_fulfilled_def active_items_of_def active_def
      getOrderByOrderId_def)

lemma sums_empty:
  "active_items_of s v = [] \<Longrightarrow> sum_quantity s v = 0 \<and> sum_fulfilled s v = 0"
  by (simp add: sum_quantity_def sum_fulfilled_def)

lemma map_upd_upd:
  assumes "\<And>t. key (U t) = key t" and "\<And>t. U (U t) = U t"
  shows "map (\<lambda>t. if key t \<in> set vs then U t else t) (map (\<lambda>t. if key t = v then U t else t) xs)
         = map (\<lambda>t. if key t \<in> insert v (set vs) then U t else t) xs"
  by (induction xs) (simp_all add: assms)

lemma recalc_step:
  "tasks (updateTaskStatus
      (update_tasks (\<lambda>t. variant_id t = v)
         (\<lambda>t. if active_items_of s v \<noteq> []
              then t\<lparr>total_quantity := sum_quantity s v, made_quantity := sum_fulfilled s v\<rparr>
              else t\<lparr>total_quantity := 0, made_quantity := 0\<rparr>) s') v)
   = map (\<lambda>t. if variant_id t = v
           then t\<lparr>total_quantity := sum_quantity s (variant_id t),
                  made_quantity := sum_fulfilled s (variant_id t),
                  status := deriveTaskStatus (sum_fulfilled s (variant_id t))
                              (sum_quantity s (variant_id t))\<rparr>
           else t) (tasks s')"
  by (simp add: updateTaskStatus_def sums_empty)

lemma recalc_fold:
  "tasks (foldl
      (\<lambda>s' v. updateTaskStatus
         (update_tasks (\<lambda>t. variant_id t = v)
            (\<lambda>t. if active_items_of s v \<noteq> []
                 then t\<lparr>total_quantity := sum_quantity s v, made_quantity := sum_fulfilled s v\<rparr>
                 else t\<lparr>total_quantity := 0, made_quantity := 0\<rparr>) s') v) s' vs)
   = map (\<lambda>t. if variant_id t \<in> set vs
           then t\<lparr>total_quantity := sum_quantity s (variant_id t),
                  made_quantity := sum_fulfilled s (variant_id t),
                  status := deriveTaskStatus (sum_fulfilled s (variant_id t))
                              (sum_quantity s (variant_id t))\<rparr>
           else t) (tasks s')"
proof (induction vs arbitrary: s')
  case Nil then show ?case by simp
next
  case (Cons v vs)
  show ?case
    unfolding foldl_Cons Cons.IH recalc_step set_simps
    by (rule map_upd_upd) simp_all
qed

lemma recalc_tasks:
  "tasks (recalculateTaskTotalsFromOrders s) =
     filter (\<lambda>t. total_quantity t \<noteq> 0)
       (map (\<lambda>t. t\<lparr>total_quantity := sum_quantity s (variant_id t),
                  made_quantity := sum_fulfilled s (variant_id t),
                  status := deriveTaskStatus (sum_fulfilled s (variant_id t))
                              (sum_quantity s (variant_id t))\<rparr>) (tasks s))"
  unfolding recalculateTaskTotalsFromOrders_def tables_delete_tasks recalc_fold
  by (intro arg_cong[where f="filter _"] map_cong refl) simp

lemma recalc_helper_fold:
  "tasks (foldl
      (\<lambda>s' v. update_tasks (\<lambda>t. variant_id t = v)
         (\<lambda>t. t\<lparr>total_quantity := sum_quantity s v, made_quantity := sum_fulfilled s v,
                 status := deriveTaskStatus_helper (sum_fulfilled s v) (sum_quantity s v)\<rparr>) s')
      s' vs)
   = map (\<lambda>t. if variant_id t \<in> set vs
           then t\<lparr>total_quantity := sum_quantity s (variant_id t),
                  made_quantity := sum_fulfilled s (variant_id t),
                  status := deriveTaskStatus_helper (sum_fulfilled s (variant_id t))
                              (sum_quantity s (variant_id t))\<rparr>
           else t) (tasks s')"
proof (induction vs arbitrary: s')
  case Nil then show ?case by simp
next
  case (Cons v vs)
  have step: "tasks (update_tasks (\<lambda>t. variant_id t = v)
         (\<lambda>t. t\<lparr>total_quantity := sum_quantity s v, made_quantity := sum_fulfilled s v,
                 status := deriveTaskStatus_helper (sum_fulfilled s v) (sum_quantity s v)\<rparr>) s')
      = map (\<lambda>t. if variant_id t = v
           then t\<lparr>total_quantity := sum_quantity s (variant_id t),
                  made_quantity := sum_fulfilled s (variant_id t),
                  status := deriveTaskStatus_helper (sum_fulfilled s (variant_id t))
                              (sum_quantity s (variant_id t))\<rparr>
           else t) (tasks s')" for s'
    by simp
  show ?case
    unfolding foldl_Cons Cons.IH step set_simps
    by (rule map_upd_upd) simp_all
qed

lemma active_variant_iff:
  "v \<in> set (remdups (map li_variant_id (filter (active s) (order_line_items s))))
     \<longleftrightarrow> active_items_of s v \<noteq> []"
  by (auto simp: active_items_of_def filter_empty_conv)

lemma recalc_helper_tasks:
  "tasks (recalculateTaskTotalsFromOrders_helper s) =
     map (\<lambda>t. if active_items_of s (variant_id t) \<noteq> []
           then t\<lparr>total_quantity := sum_quantity s (variant_id t),
                  made_quantity := sum_fulfilled s (variant_id t),
                  status := deriveTaskStatus_helper (sum_fulfilled s (variant_id t))
                              (sum_quantity s (variant_id t))\<rparr>
           else t) (tasks s)"
  unfolding recalculateTaskTotalsFromOrders_helper_def recalc_helper_fold active_variant_iff ..

lemma recalc_sums:
  "sum_quantity (recalculateTaskTotalsFromOrders s) v = sum_quantity s v"
  "sum_fulfilled (recalculateTaskTotalsFromOrders s) v = sum_fulfilled s v"
  using sums_frame[of "recalculateTaskTotalsFromOrders s" s v]
  by (simp_all add: orders_after_tasks_steps)

text \<open>
  C8. After \<^verbatim>\<open>recalculateTaskTotalsFromOrders\<close> of \<^verbatim>\<open>database.js\<close>, every task row has as
  total and made the sums of \<open>quantity\<close> and \<open>fulfilled_quantity\<close> over the line items of
  its variant that belong to non-archived orders, with the status derived from them, and no
  task with total \<open>0\<close> is left: the tasks kept are those whose variant has a non-zero sum.
  The function of the same name of the test double rewrites only the tasks whose variant
  has such a line item, and deletes nothing.
\<close>

theorem recalculate_matches_line_items:
  "(\<forall>t \<in> set (tasks (recalculateTaskTotalsFromOrders s)).
      total_quantity t = sum_quantity (recalculateTaskTotalsFromOrders s) (variant_id t) \<and>
      made_quantity t = sum_fulfilled (recalculateTaskTotalsFromOrders s) (variant_id t) \<and>
      status t = deriveTaskStatus (made_quantity t) (total_quantity t) \<and>
      total_quantity t \<noteq> 0) \<and>
   map variant_id (tasks (recalculateTaskTotalsFromOrders s)) =
     filter (\<lambda>v. sum_quantity s v \<noteq> 0) (map variant_id (tasks s)) \<and>
   tasks (recalculateTaskTotalsFromOrders_helper s) =
     map (\<lambda>t. if active_items_of s (variant_id t) \<noteq> []
           then t\<lparr>total_quantity := sum_quantity s (variant_id t),
                  made_quantity := sum_fulfilled s (variant_id t),
                  status := deriveTaskStatus_helper (sum_fulfilled s (variant_id t))
                              (sum_quantity s (variant_id t))\<rparr>
           else t) (tasks s)"
proof (intro conjI)
  show "\<forall>t \<in> set (tasks (recalculateTaskTotalsFromOrders s)).
      total_quantity t = sum_quantity (recalculateTaskTotalsFromOrders s) (variant_id t) \<and>
      made_quantity t = sum_fulfilled (recalculateTaskTotalsFromOrders s) (variant_id t) \<and>
      status t = deriveTaskStatus (made_quantity t) (total_quantity t) \<and>
      total_quantity t \<noteq> 0"
    unfolding recalc_sums by (auto simp: recalc_tasks)
  show "map variant_id (tasks (recalculateTaskTotalsFromOrders s)) =
     filter (\<lambda>v. sum_quantity s v \<noteq> 0) (map variant_id (tasks s))"
    by (simp add: recalc_tasks filter_map o_def)
  show "tasks (recalculateTaskTotalsFromOrders_helper s) =
     map (\<lambda>t. if active_items_of s (variant_id t) \<noteq> []
           then t\<lparr>total_quantity := sum_quantity s (variant_id t),
                  made_quantity := sum_fulfilled s (variant_id t),
                  status := deriveTaskStatus_helper (sum_fulfilled s (variant_id t))
                              (sum_quantity s (variant_id t))\<rparr>
           else t) (tasks s)"
    by (rule recalc_helper_tasks)
qed

lemma ex_stale_sums:
  "sum_quantity ex_db_stale ''variant-1'' = 5" "sum_fulfilled ex_db_stale ''variant-1'' = 3"
  "sum_quantity ex_db_stale ''variant-9'' = 0" "sum_fulfilled ex_db_stale ''variant-9'' = 0"
  "active_items_of ex_db_stale ''variant-9'' = []"
  "active_items_of ex_db_stale ''variant-1'' = [ex_line]"
  by (simp_all add: sum_quantity_def sum_fulfilled_def active_items_of_def active_def
      getOrderByOrderId_def ex_db_stale_def ex_order_def ex_line_def)

theorem recalculate_matches_line_items_witness:
  "map variant_id (tasks ex_db_stale) = [''variant-1'', ''variant-9''] \<and>
   map variant_id (tasks (recalculateTaskTotalsFromOrders ex_db_stale)) = [''variant-1''] \<and>
   sum_quantity ex_db_stale ''variant-9'' = 0 \<and>
   tasks (recalculateTaskTotalsFromOrders_helper ex_db_stale) = tasks ex_db_stale"
proof -
  have 1: "map variant_id (tasks ex_db_stale) = [''variant-1'', ''variant-9'']"
    by (simp add: ex_db_stale_def ex_task_def)
  from recalculate_matches_line_items[of ex_db_stale]
  have "map variant_id (tasks (recalculateTaskTotalsFromOrders ex_db_stale)) =
          filter (\<lambda>v. sum_quantity ex_db_stale v \<noteq> 0) (map variant_id (tasks ex_db_stale))"
    and h: "tasks (recalculateTaskTotalsFromOrders_helper ex_db_stale) =
     map (\<lambda>t. if active_items_of ex_db_stale (variant_id t) \<noteq> []
           then t\<lparr>total_quantity := sum_quantity ex_db_stale (variant_id t),
                  made_quantity := sum_fulfilled ex_db_stale (variant_id t),
                  status := deriveTaskStatus_helper (sum_fulfilled ex_db_stale (variant_id t))
                              (sum_quantity ex_db_stale (variant_id t))\<rparr>
           else t) (tasks ex_db_stale)"
    by blast+
  then have 2: "map variant_id (tasks (recalculateTaskTotalsFromOrders ex_db_stale)) = [''variant-1'']"
    by (simp add: 1 ex_stale_sums)
  have tk: "tasks ex_db_stale =
      [ex_task\<lparr>total_quantity := 5, made_quantity := 3\<rparr>,
       ex_task\<lparr>variant_id := ''variant-9'', total_quantity := 5, made_quantity := 0,
         status := Pending\<rparr>]"
    by (simp add: ex_db_stale_def)
  have 3: "tasks (recalculateTaskTotalsFromOrders_helper ex_db_stale) = tasks ex_db_stale"
    unfolding h tk by (simp add: ex_task_def ex_stale_sums deriveTaskStatus_helper_def)
  show ?thesis using 1 2 3 ex_stale_sums(3) by blast
qed

subsection \<open>Allocation: the plan and its effect\<close>

lemma allocated_simps [simp]:
  "allocated_to [] A k = 0" "allocated_to L [] k = 0"
  "allocated_to (item # L) (a # A) k =
     (if line_item_id item = k then a else 0) + allocated_to L A k"
  "allocated_to_order [] A oid = 0" "allocated_to_order L [] oid = 0"
  "allocated_to_order (item # L) (a # A) oid =
     (if li_order_id item = oid then a else 0) + allocated_to_order L A oid"
  by (simp_all add: allocated_to_def allocated_to_order_def)

lemma allocated_to_absent:
  "k \<notin> line_item_id ` set L \<Longrightarrow> allocated_to L A k = 0"
proof (induction L arbitrary: A)
  case Nil then show ?case by simp
next
  case (Cons item L) then show ?case by (cases A) auto
qed

lemma allocated_to_order_absent:
  "oid \<notin> li_order_id ` set L \<Longrightarrow> allocated_to_order L A oid = 0"
proof (induction L arbitrary: A)
  case Nil then show ?case by simp
next
  case (Cons item L) then show ?case by (cases A) auto
qed

lemma allocated_nonneg:
  "\<forall>a \<in> set A. 0 \<le> a \<Longrightarrow> 0 \<le> allocated_to L A k \<and> 0 \<le> allocated_to_order L A oid"
proof (induction L arbitrary: A)
  case Nil then show ?case by simp
next
  case (Cons item L) then show ?case by (cases A) (simp_all add: add_nonneg_nonneg)
qed

lemma fifo_amounts_length [simp]: "length (fifo_amounts remaining L) = length L"
  by (induction L arbitrary: remaining) simp_all

lemma fifo_amounts_nonneg:
  "0 \<le> remaining \<Longrightarrow> \<forall>li \<in> set L. fulfilled_quantity li \<le> quantity li \<Longrightarrow>
   \<forall>a \<in> set (fifo_amounts remaining L). 0 \<le> a"
proof (induction L arbitrary: remaining)
  case Nil then show ?case by simp
next
  case (Cons li L)
  have "0 \<le> remaining - min (quantity li - fulfilled_quantity li) remaining" by simp
  from Cons.IH[OF this] Cons.prems show ?case by simp
qed

lemma fifo_amounts_zero:
  "\<forall>li \<in> set L. fulfilled_quantity li \<le> quantity li \<Longrightarrow>
   allocated_to L (fifo_amounts 0 L) k = 0 \<and> allocated_to_order L (fifo_amounts 0 L) oid = 0"
  by (induction L) simp_all

lemma bump_order_simps:
  "bump_order [] A = (\<lambda>r. r)"
  "bump_order (item # rest) (0 # A) = bump_order rest A"
  by (rule ext, simp add: bump_order_def)+

lemma allocation_effect_zero:
  assumes "\<forall>li \<in> set L. fulfilled_quantity li \<le> quantity li"
  shows "allocation_effect L (fifo_amounts 0 L) s = s"
proof -
  have "bump_order L (fifo_amounts 0 L) = (\<lambda>r. r)"
    by (rule ext) (simp add: bump_order_def fifo_amounts_zero[OF assms])
  then show ?thesis
    by (simp add: allocation_effect_def fifo_amounts_zero[OF assms])
qed

lemma items_step:
  assumes "\<forall>li \<in> set xs. line_item_id li = line_item_id item \<longrightarrow>
             fulfilled_quantity li = fulfilled_quantity item"
    and "line_item_id item \<notin> line_item_id ` set rest"
  shows "map (\<lambda>li. li\<lparr>fulfilled_quantity :=
                fulfilled_quantity li + allocated_to rest A (line_item_id li)\<rparr>)
           (map (\<lambda>li. if line_item_id li = line_item_id item
                  then li\<lparr>fulfilled_quantity := fulfilled_quantity item + a\<rparr> else li) xs)
         = map (\<lambda>li. li\<lparr>fulfilled_quantity :=
                fulfilled_quantity li + allocated_to (item # rest) (a # A) (line_item_id li)\<rparr>) xs"
  using assms(1) by (induction xs) (simp_all add: allocated_to_absent[OF assms(2)])

lemma find_unique:
  "distinct (map f xs) \<Longrightarrow> find (\<lambda>x. f x = k) xs = Some y \<Longrightarrow> x \<in> set xs \<Longrightarrow> f x = k \<Longrightarrow>
   x = y"
  by (rule distinct_key_eq[of f xs]) (auto simp: find_Some_iff)

lemma orders_step:
  assumes d: "distinct (map order_id rs)"
    and f: "find (\<lambda>r. order_id r = li_order_id item) rs = Some ord"
    and a: "0 < a" and A: "\<forall>x \<in> set A. 0 \<le> x"
  shows "map (bump_order rest A)
           (map (\<lambda>r. if order_id r = li_order_id item
                  then r\<lparr>fulfilled_items := fulfilled_items ord + a,
                         ostatus := inlineOrderStatus (fulfilled_items ord + a) (total_items ord)\<rparr>
                  else r) rs)
         = map (bump_order (item # rest) (a # A)) rs"
proof -
  have "bump_order rest A
          (if order_id r = li_order_id item
           then r\<lparr>fulfilled_items := fulfilled_items ord + a,
                  ostatus := inlineOrderStatus (fulfilled_items ord + a) (total_items ord)\<rparr>
           else r) = bump_order (item # rest) (a # A) r" if r: "r \<in> set rs" for r
  proof (cases "order_id r = li_order_id item")
    case False then show ?thesis by (simp add: bump_order_def)
  next
    case True
    have e: "r = ord" using d f r True by (rule find_unique)
    have n: "0 \<le> allocated_to_order rest A (li_order_id item)"
      using allocated_nonneg[OF A] by simp
    show ?thesis using True a n unfolding e
      by (simp add: bump_order_def add.assoc)
  qed
  then show ?thesis by simp
qed

lemma allocate_loop_helper_effect:
  assumes "distinct (map line_item_id L)"
    and "\<forall>item \<in> set L. \<forall>li \<in> set (order_line_items s).
           line_item_id li = line_item_id item \<longrightarrow>
           fulfilled_quantity li = fulfilled_quantity item"
    and "\<forall>item \<in> set L. fulfilled_quantity item \<le> quantity item"
    and "0 \<le> remaining"
    and "distinct (map order_id (orders s))"
    and "\<forall>item \<in> set L. li_order_id item \<in> order_id ` set (orders s)"
  shows "\<exists>R. allocate_loop_helper L remaining s acc =
           Inr (allocation_effect L (fifo_amounts remaining L) s, R)"
  using assms
proof (induction L arbitrary: remaining s acc)
  case Nil
  then show ?case by (simp add: allocation_effect_def bump_order_simps)
next
  case (Cons item rest)
  let ?room = "quantity item - fulfilled_quantity item"
  have room: "0 \<le> ?room" using Cons.prems(3) by simp
  show ?case
  proof (cases "remaining \<le> 0")
    case True
    then have z: "remaining = 0" using Cons.prems(4) by simp
    show ?thesis
      using allocation_effect_zero[OF Cons.prems(3), of s] by (simp add: z)
  next
    case pos: False
    show ?thesis
    proof (cases "?room \<le> 0")
      case True
      then have r0: "?room = 0" using room by simp
      have m: "min ?room remaining = 0" using r0 pos by simp
      have "\<exists>R. allocate_loop_helper rest remaining s acc =
               Inr (allocation_effect rest (fifo_amounts remaining rest) s, R)"
        using Cons.prems by (intro Cons.IH) simp_all
      then show ?thesis using pos True
        by (simp add: m allocation_effect_def bump_order_simps)
    next
      case False
      define a where "a = min ?room remaining"
      have a: "0 < a" using False pos by (simp add: a_def)
      from Cons.prems(6) obtain ord where
        ord: "getOrderByOrderId s (li_order_id item) = Some ord"
        by (cases "getOrderByOrderId s (li_order_id item)")
           (auto simp: getOrderByOrderId_def find_None_iff)
      define s2 where "s2 =
        update_orders (\<lambda>r. order_id r = li_order_id item)
          (\<lambda>r. r\<lparr>fulfilled_items := fulfilled_items ord + a,
                  ostatus := inlineOrderStatus (fulfilled_items ord + a) (total_items ord)\<rparr>)
          (update_line_items (\<lambda>li. line_item_id li = line_item_id item)
             (\<lambda>li. li\<lparr>fulfilled_quantity := fulfilled_quantity item + a\<rparr>) s)"
      have nin: "line_item_id item \<notin> line_item_id ` set rest" using Cons.prems(1) by simp
      have A: "\<forall>x \<in> set (fifo_amounts (remaining - a) rest). 0 \<le> x"
        using Cons.prems(3) pos by (intro fifo_amounts_nonneg) (simp_all add: a_def)
      have ih: "\<exists>R. allocate_loop_helper rest (remaining - a) s2 acc' =
               Inr (allocation_effect rest (fifo_amounts (remaining - a) rest) s2, R)" for acc'
      proof (intro Cons.IH)
        show "distinct (map line_item_id rest)" using Cons.prems(1) by simp
        show "\<forall>item' \<in> set rest. \<forall>li \<in> set (order_line_items s2).
           line_item_id li = line_item_id item' \<longrightarrow>
           fulfilled_quantity li = fulfilled_quantity item'"
          using Cons.prems(2) nin by (auto simp: s2_def)
        show "\<forall>item \<in> set rest. fulfilled_quantity item \<le> quantity item"
          using Cons.prems(3) by simp
        show "0 \<le> remaining - a" using pos by (simp add: a_def)
        show "distinct (map order_id (orders s2))"
          using Cons.prems(5) by (simp add: s2_def o_def if_distrib[of order_id] cong: if_cong)
        show "\<forall>item \<in> set rest. li_order_id item \<in> order_id ` set (orders s2)"
          using Cons.prems(6)
          by (simp add: s2_def image_image o_def if_distrib[of order_id] cong: if_cong)
      qed
      have s2: "s2 = s\<lparr>orders := map (\<lambda>r. if order_id r = li_order_id item
                  then r\<lparr>fulfilled_items := fulfilled_items ord + a,
                         ostatus := inlineOrderStatus (fulfilled_items ord + a) (total_items ord)\<rparr>
                  else r) (orders s),
               order_line_items := map (\<lambda>li. if line_item_id li = line_item_id item
                  then li\<lparr>fulfilled_quantity := fulfilled_quantity item + a\<rparr> else li)
                  (order_line_items s)\<rparr>"
        by (simp add: s2_def update_orders_def update_line_items_def)
      have i: "map (\<lambda>li. li\<lparr>fulfilled_quantity := fulfilled_quantity li
                  + allocated_to rest (fifo_amounts (remaining - a) rest) (line_item_id li)\<rparr>)
           (map (\<lambda>li. if line_item_id li = line_item_id item
                  then li\<lparr>fulfilled_quantity := fulfilled_quantity item + a\<rparr> else li)
              (order_line_items s))
         = map (\<lambda>li. li\<lparr>fulfilled_quantity := fulfilled_quantity li
                  + allocated_to (item # rest) (a # fifo_amounts (remaining - a) rest)
                      (line_item_id li)\<rparr>) (order_line_items s)"
      proof (rule items_step)
        show "\<forall>li \<in> set (order_line_items s). line_item_id li = line_item_id item \<longrightarrow>
             fulfilled_quantity li = fulfilled_quantity item"
          using Cons.prems(2) by simp
        show "line_item_id item \<notin> line_item_id ` set rest" by (rule nin)
      qed
      have o: "map (bump_order rest (fifo_amounts (remaining - a) rest))
           (map (\<lambda>r. if order_id r = li_order_id item
                  then r\<lparr>fulfilled_items := fulfilled_items ord + a,
                         ostatus := inlineOrderStatus (fulfilled_items ord + a) (total_items ord)\<rparr>
                  else r) (orders s))
         = map (bump_order (item # rest) (a # fifo_amounts (remaining - a) rest)) (orders s)"
        by (rule orders_step[OF Cons.prems(5) ord[unfolded getOrderByOrderId_def] a A])
      have fa: "fifo_amounts remaining (item # rest) = a # fifo_amounts (remaining - a) rest"
        by (simp add: a_def)
      have eff: "allocation_effect rest (fifo_amounts (remaining - a) rest) s2 =
                 allocation_effect (item # rest) (a # fifo_amounts (remaining - a) rest) s"
        unfolding allocation_effect_def by (simp add: s2 i o del: map_map)
      show ?thesis
        using pos False ord ih[unfolded eff]
        by (simp add: a_def[symmetric] s2_def[symmetric])
    qed
  qed
qed

lemma rooms_sum_nonneg:
  "\<forall>li \<in> set L. fulfilled_quantity li \<le> quantity li \<Longrightarrow>
   0 \<le> sum_list (map (\<lambda>li. quantity li - fulfilled_quantity li) L)"
  by (rule sum_list_nonneg) auto

lemma fifo_amounts_sum:
  "0 \<le> remaining \<Longrightarrow> \<forall>li \<in> set L. fulfilled_quantity li \<le> quantity li \<Longrightarrow>
   sum_list (fifo_amounts remaining L) =
     min remaining (sum_list (map (\<lambda>li. quantity li - fulfilled_quantity li) L))"
proof (induction L arbitrary: remaining)
  case Nil then show ?case by simp
next
  case (Cons li L)
  let ?room = "quantity li - fulfilled_quantity li"
  let ?S = "sum_list (map (\<lambda>li. quantity li - fulfilled_quantity li) L)"
  have S: "0 \<le> ?S" using Cons.prems(2) by (intro rooms_sum_nonneg) simp
  have r: "0 \<le> ?room" using Cons.prems(2) by simp
  have "0 \<le> remaining - min ?room remaining" by simp
  from Cons.IH[OF this] Cons.prems(2)
  have "sum_list (fifo_amounts (remaining - min ?room remaining) L) =
          min (remaining - min ?room remaining) ?S" by simp
  then show ?case using S r Cons.prems(1) by (simp add: min_def)
qed

lemma fifo_amounts_nth:
  "0 \<le> remaining \<Longrightarrow> \<forall>li \<in> set L. fulfilled_quantity li \<le> quantity li \<Longrightarrow> k < length L \<Longrightarrow>
   fifo_amounts remaining L ! k =
     min (quantity (L ! k) - fulfilled_quantity (L ! k))
       (max 0 (remaining -
          sum_list (map (\<lambda>li. quantity li - fulfilled_quantity li) (take k L))))"
proof (induction L arbitrary: remaining k)
  case Nil then show ?case by simp
next
  case (Cons li L)
  let ?room = "quantity li - fulfilled_quantity li"
  show ?case
  proof (cases k)
    case 0 then show ?thesis using Cons.prems(1) by simp
  next
    case (Suc j)
    let ?S = "sum_list (map (\<lambda>li. quantity li - fulfilled_quantity li) (take j L))"
    have S: "0 \<le> ?S"
      using Cons.prems(2) by (intro rooms_sum_nonneg) (auto dest: in_set_takeD)
    have r: "0 \<le> ?room" using Cons.prems(2) by simp
    have j: "j < length L" using Cons.prems(3) Suc by simp
    have "0 \<le> remaining - min ?room remaining" by simp
    from Cons.IH[OF this _ j] Cons.prems(2)
    have "fifo_amounts (remaining - min ?room remaining) L ! j =
            min (quantity (L ! j) - fulfilled_quantity (L ! j))
              (max 0 (remaining - min ?room remaining - ?S))" by simp
    moreover have "max 0 (remaining - min ?room remaining - ?S) = max 0 (remaining - (?room + ?S))"
      using S r Cons.prems(1) by (simp add: min_def max_def)
    ultimately show ?thesis using Suc by simp
  qed
qed

lemma rows_helper_facts:
  "sorted (map (parent_date s) (allocation_rows_helper s v))"
  "set (allocation_rows_helper s v) =
     {li \<in> set (order_line_items s). li_variant_id li = v \<and> active s li}"
  "distinct (map line_item_id (order_line_items s)) \<Longrightarrow>
     distinct (map line_item_id (allocation_rows_helper s v))"
proof -
  show "sorted (map (parent_date s) (allocation_rows_helper s v))"
    by (simp add: allocation_rows_helper_def)
  show "set (allocation_rows_helper s v) =
     {li \<in> set (order_line_items s). li_variant_id li = v \<and> active s li}"
    by (simp add: allocation_rows_helper_def active_items_of_def)
  assume "distinct (map line_item_id (order_line_items s))"
  then have "distinct (map line_item_id (active_items_of s v))"
    unfolding active_items_of_def by (rule distinct_map_filter)
  then show "distinct (map line_item_id (allocation_rows_helper s v))"
    by (simp add: allocation_rows_helper_def distinct_map)
qed

lemma find_SomeD: "find P xs = Some x \<Longrightarrow> P x \<and> x \<in> set xs"
  by (induction xs) (auto split: if_splits)

lemma active_parent:
  assumes "active s li"
  shows "li_order_id li \<in> order_id ` set (orders s)"
proof (cases "getOrderByOrderId s (li_order_id li)")
  case None then show ?thesis using assms by (simp add: active_def)
next
  case (Some r)
  then have "order_id r = li_order_id li \<and> r \<in> set (orders s)"
    unfolding getOrderByOrderId_def by (rule find_SomeD)
  then show ?thesis by (intro image_eqI[of _ _ r]) simp_all
qed

lemma allocate_helper_effect:
  assumes "distinct (map line_item_id (order_line_items s))"
    and "distinct (map order_id (orders s))"
    and "\<forall>li \<in> set (order_line_items s). li_variant_id li = v \<and> active s li \<longrightarrow>
           fulfilled_quantity li \<le> quantity li"
    and "0 \<le> qty"
  shows "\<exists>R. allocateMadeQuantityToOrders_helper s v qty =
           Inr (allocation_effect (allocation_rows_helper s v)
                  (fifo_amounts qty (allocation_rows_helper s v)) s, R)"
  unfolding allocateMadeQuantityToOrders_helper_def
proof (rule allocate_loop_helper_effect)
  show "distinct (map line_item_id (allocation_rows_helper s v))"
    using assms(1) by (rule rows_helper_facts)
  show "\<forall>item\<in>set (allocation_rows_helper s v). \<forall>li\<in>set (order_line_items s).
       line_item_id li = line_item_id item \<longrightarrow> fulfilled_quantity li = fulfilled_quantity item"
  proof (intro ballI impI)
    fix item li
    assume "item \<in> set (allocation_rows_helper s v)" "li \<in> set (order_line_items s)"
      "line_item_id li = line_item_id item"
    then have "li = item"
      using distinct_key_eq[OF assms(1), of li item] by (simp add: rows_helper_facts(2))
    then show "fulfilled_quantity li = fulfilled_quantity item" by simp
  qed
  show "\<forall>item\<in>set (allocation_rows_helper s v). fulfilled_quantity item \<le> quantity item"
    using assms(3) by (simp add: rows_helper_facts(2))
  show "0 \<le> qty" by (rule assms(4))
  show "distinct (map order_id (orders s))" by (rule assms(2))
  show "\<forall>item\<in>set (allocation_rows_helper s v). li_order_id item \<in> order_id ` set (orders s)"
    by (simp add: rows_helper_facts(2) active_parent)
qed

lemma allocate_loop_tables:
  "0 \<le> remaining \<Longrightarrow> \<forall>li \<in> set L. fulfilled_quantity li \<le> quantity li \<Longrightarrow>
   order_line_items (fst (allocate_loop L remaining s allocs affected)) =
     map (\<lambda>li. li\<lparr>fulfilled_quantity :=
            fulfilled_quantity li + allocated_to L (fifo_amounts remaining L) (line_item_id li)\<rparr>)
       (order_line_items s) \<and>
   orders (fst (allocate_loop L remaining s allocs affected)) = orders s \<and>
   tasks (fst (allocate_loop L remaining s allocs affected)) = tasks s"
proof (induction L arbitrary: remaining s allocs affected)
  case Nil then show ?case by simp
next
  case (Cons item rest)
  let ?room = "quantity item - fulfilled_quantity item"
  have room: "0 \<le> ?room" using Cons.prems(2) by simp
  show ?case
  proof (cases "remaining \<le> 0")
    case True
    then have z: "remaining = 0" using Cons.prems(1) by simp
    show ?thesis using fifo_amounts_zero[of "item # rest"] Cons.prems(2) by (simp add: z)
  next
    case pos: False
    define a where "a = min ?room remaining"
    have a0: "0 \<le> a" using room pos by (simp add: a_def)
    have rem: "0 \<le> remaining - a" using pos by (simp add: a_def)
    have rest: "\<forall>li \<in> set rest. fulfilled_quantity li \<le> quantity li" using Cons.prems(2) by simp
    note ih = Cons.IH[OF rem rest]
    show ?thesis
    proof (cases "0 < a")
      case True
      have "map (\<lambda>li. li\<lparr>fulfilled_quantity := fulfilled_quantity li
                 + allocated_to rest (fifo_amounts (remaining - a) rest) (line_item_id li)\<rparr>)
              (map (\<lambda>li. if line_item_id li = line_item_id item
                     then li\<lparr>fulfilled_quantity := fulfilled_quantity li + a\<rparr> else li) xs)
            = map (\<lambda>li. li\<lparr>fulfilled_quantity := fulfilled_quantity li
                 + allocated_to (item # rest) (a # fifo_amounts (remaining - a) rest)
                     (line_item_id li)\<rparr>) xs" for xs :: "line_item list"
        by (induction xs) (simp_all add: add.assoc)
      moreover have "fulfilled_quantity item < quantity item" using True by (simp add: a_def)
      ultimately show ?thesis using pos True ih
        by (simp add: a_def[symmetric] del: map_map)
    next
      case False
      then have z: "a = 0" using a0 by simp
      have "\<not> fulfilled_quantity item < quantity item" using z pos by (simp add: a_def min_def split: if_splits)
      then show ?thesis using pos ih z by (simp add: a_def[symmetric])
    qed
  qed
qed

lemma fifo_filter_full:
  "0 \<le> remaining \<Longrightarrow> \<forall>li \<in> set L. fulfilled_quantity li \<le> quantity li \<Longrightarrow>
   allocated_to (filter (\<lambda>li. fulfilled_quantity li < quantity li) L)
     (fifo_amounts remaining (filter (\<lambda>li. fulfilled_quantity li < quantity li) L)) k
   = allocated_to L (fifo_amounts remaining L) k"
proof (induction L arbitrary: remaining)
  case Nil then show ?case by simp
next
  case (Cons li L)
  have "0 \<le> remaining - min (quantity li - fulfilled_quantity li) remaining" by simp
  note ih = Cons.IH[OF this] Cons.IH[OF Cons.prems(1)]
  show ?case
  proof (cases "fulfilled_quantity li < quantity li")
    case True then show ?thesis using ih Cons.prems(2) by simp
  next
    case False
    then have "quantity li - fulfilled_quantity li = 0" using Cons.prems(2) by simp
    then show ?thesis using False ih Cons.prems by simp
  qed
qed

lemma rows_filter:
  "allocation_rows s v =
     filter (\<lambda>li. fulfilled_quantity li < quantity li) (allocation_rows_helper s v)"
  unfolding allocation_rows_def allocation_rows_helper_def active_items_of_def filter_sort
    filter_filter
  by (intro arg_cong[where f="sort_key _"] filter_cong refl) auto

lemma allocate_line_items:
  assumes "\<forall>li \<in> set (order_line_items s). li_variant_id li = v \<and> active s li \<longrightarrow>
           fulfilled_quantity li \<le> quantity li"
    and "0 \<le> qty"
  shows "order_line_items (fst (allocateMadeQuantityToOrders s v qty)) =
           order_line_items (allocation_effect (allocation_rows_helper s v)
                  (fifo_amounts qty (allocation_rows_helper s v)) s)"
proof -
  have w: "\<forall>li \<in> set (allocation_rows_helper s v). fulfilled_quantity li \<le> quantity li"
    using assms(1) by (simp add: rows_helper_facts(2))
  then have wp: "\<forall>li \<in> set (allocation_rows s v). fulfilled_quantity li \<le> quantity li"
    by (simp add: rows_filter)
  have "order_line_items (fst (allocateMadeQuantityToOrders s v qty)) =
          order_line_items (fst (allocate_loop (allocation_rows s v) qty s [] []))"
    by (simp add: allocateMadeQuantityToOrders_def Let_def split_beta updateAllOrderStatuses_def)
  also have "\<dots> = map (\<lambda>li. li\<lparr>fulfilled_quantity := fulfilled_quantity li
        + allocated_to (allocation_rows s v) (fifo_amounts qty (allocation_rows s v))
            (line_item_id li)\<rparr>) (order_line_items s)"
    using allocate_loop_tables[OF assms(2) wp] by simp
  also have "\<dots> = order_line_items (allocation_effect (allocation_rows_helper s v)
                  (fifo_amounts qty (allocation_rows_helper s v)) s)"
    unfolding rows_filter fifo_filter_full[OF assms(2) w]
    by (simp add: allocation_effect_def)
  finally show ?thesis .
qed

lemma allocate_orders:
  assumes "\<forall>li \<in> set (order_line_items s). li_variant_id li = v \<and> active s li \<longrightarrow>
           fulfilled_quantity li \<le> quantity li"
    and "0 \<le> qty"
  shows "orders (fst (allocateMadeQuantityToOrders s v qty)) =
     map (\<lambda>r. if ostatus r \<noteq> Archived
           then r\<lparr>fulfilled_items :=
                    order_fulfilled_sum (fst (allocateMadeQuantityToOrders s v qty)) (order_id r),
                  ostatus := deriveOrderStatus
                    (order_fulfilled_sum (fst (allocateMadeQuantityToOrders s v qty)) (order_id r))
                    (total_items r)\<rparr>
           else r) (orders s)"
proof -
  have wp: "\<forall>li \<in> set (allocation_rows s v). fulfilled_quantity li \<le> quantity li"
    using assms(1) by (simp add: rows_filter rows_helper_facts(2))
  define s1 where "s1 = fst (allocate_loop (allocation_rows s v) qty s [] [])"
  have f: "fst (allocateMadeQuantityToOrders s v qty) = updateAllOrderStatuses s1"
    by (simp add: allocateMadeQuantityToOrders_def Let_def split_beta s1_def)
  have o: "orders s1 = orders s"
    unfolding s1_def using allocate_loop_tables[OF assms(2) wp] by simp
  have "order_fulfilled_sum (updateAllOrderStatuses s1) oid = order_fulfilled_sum s1 oid" for oid
    by (simp add: order_fulfilled_sum_def getOrderLineItems_def updateAllOrderStatuses_def)
  then show ?thesis unfolding f updateAllOrderStatuses_orders o by simp
qed

text \<open>
  C3. For a database with unique line-item and order ids whose rows of the variant obey
  \<open>fulfilled_quantity \<le> quantity\<close>, and a quantity \<open>qty \<ge> 0\<close>: the rows visited are the
  line items of the variant that belong to non-archived orders, in ascending order of the
  parent's date; the allocation never fails; it leaves each line item with its
  \<open>fulfilled_quantity\<close> raised by what the plan \<open>min room remaining\<close> gives it, and (test
  double) each order that receives something with \<open>fulfilled_items\<close> raised by the same
  amount and its status derived again; \<^verbatim>\<open>database.js\<close> changes the line items in the same
  way and then recomputes \<open>fulfilled_items\<close> of every non-archived order from its line
  items. The \<open>k\<close>-th row receives \<open>min room\<^sub>k (max 0 (qty - (room\<^sub>0 + \<dots> + room\<^sub>k\<^sub>-\<^sub>1)))\<close>, and
  in all \<open>min qty (room\<^sub>0 + \<dots>)\<close> is allocated: what exceeds the demand is left over.
\<close>

theorem fifo_allocation:
  assumes "distinct (map line_item_id (order_line_items s))"
    and "distinct (map order_id (orders s))"
    and "\<forall>li \<in> set (order_line_items s). li_variant_id li = v \<and> active s li \<longrightarrow>
           fulfilled_quantity li \<le> quantity li"
    and "0 \<le> qty"
  shows "sorted (map (parent_date s) (allocation_rows_helper s v)) \<and>
    set (allocation_rows_helper s v) =
      {li \<in> set (order_line_items s). li_variant_id li = v \<and> active s li} \<and>
    (\<exists>R. allocateMadeQuantityToOrders_helper s v qty =
       Inr (allocation_effect (allocation_rows_helper s v)
              (fifo_amounts qty (allocation_rows_helper s v)) s, R)) \<and>
    order_line_items (fst (allocateMadeQuantityToOrders s v qty)) =
      order_line_items (allocation_effect (allocation_rows_helper s v)
              (fifo_amounts qty (allocation_rows_helper s v)) s) \<and>
    orders (fst (allocateMadeQuantityToOrders s v qty)) =
      map (\<lambda>r. if ostatus r \<noteq> Archived
            then r\<lparr>fulfilled_items :=
                     order_fulfilled_sum (fst (allocateMadeQuantityToOrders s v qty)) (order_id r),
                   ostatus := deriveOrderStatus
                     (order_fulfilled_sum (fst (allocateMadeQuantityToOrders s v qty)) (order_id r))
                     (total_items r)\<rparr>
            else r) (orders s) \<and>
    sum_list (fifo_amounts qty (allocation_rows_helper s v)) =
      min qty (sum_list (map (\<lambda>li. quantity li - fulfilled_quantity li)
                 (allocation_rows_helper s v))) \<and>
    (\<forall>k < length (allocation_rows_helper s v).
       fifo_amounts qty (allocation_rows_helper s v) ! k =
         min (quantity (allocation_rows_helper s v ! k)
                - fulfilled_quantity (allocation_rows_helper s v ! k))
           (max 0 (qty - sum_list (map (\<lambda>li. quantity li - fulfilled_quantity li)
                                   (take k (allocation_rows_helper s v))))))"
proof -
  have w: "\<forall>li \<in> set (allocation_rows_helper s v). fulfilled_quantity li \<le> quantity li"
    using assms(3) by (simp add: rows_helper_facts(2))
  show ?thesis
    using rows_helper_facts(1,2)[of s v] allocate_helper_effect[OF assms]
      allocate_line_items[OF assms(3,4)] allocate_orders[OF assms(3,4)]
      fifo_amounts_sum[OF assms(4) w] fifo_amounts_nth[OF assms(4) w]
    by blast
qed

lemma ex_fifo_facts:
  "distinct (map line_item_id (order_line_items ex_db_fifo))"
  "distinct (map order_id (orders ex_db_fifo))"
  "\<forall>li \<in> set (order_line_items ex_db_fifo). li_variant_id li = ''variant-1'' \<and>
     active ex_db_fifo li \<longrightarrow> fulfilled_quantity li \<le> quantity li"
  "order_line_items ex_db_fifo = [ex_line_jan10, ex_line_jan01]"
  "allocation_rows_helper ex_db_fifo ''variant-1'' = [ex_line_jan01, ex_line_jan10]"
  "fifo_amounts 3 [ex_line_jan01, ex_line_jan10] = [3, 0]"
  "fifo_amounts 8 [ex_line_jan01, ex_line_jan10] = [5, 3]"
  by (simp_all add: ex_db_fifo_def ex_line_jan01_def ex_line_jan10_def ex_order_jan01_def
      ex_order_jan10_def allocation_rows_helper_def active_items_of_def active_def
      getOrderByOrderId_def parent_date_def)

theorem fifo_allocation_witness:
  "map (\<lambda>li. (line_item_id li, fulfilled_quantity li))
     (order_line_items (fst (allocateMadeQuantityToOrders ex_db_fifo ''variant-1'' 3))) =
     [(''line-b'', 0), (''line-a'', 3)] \<and>
   map (\<lambda>li. (line_item_id li, fulfilled_quantity li))
     (order_line_items (fst (allocateMadeQuantityToOrders ex_db_fifo ''variant-1'' 8))) =
     [(''line-b'', 3), (''line-a'', 5)] \<and>
   (\<exists>R. allocateMadeQuantityToOrders_helper ex_db_fifo ''variant-1'' 3 =
      Inr (allocation_effect [ex_line_jan01, ex_line_jan10] [3, 0] ex_db_fifo, R)) \<and>
   (\<exists>R. allocateMadeQuantityToOrders_helper ex_db_fifo ''variant-1'' 8 =
      Inr (allocation_effect [ex_line_jan01, ex_line_jan10] [5, 3] ex_db_fifo, R)) \<and>
   map (\<lambda>li. (line_item_id li, fulfilled_quantity li))
     (order_line_items (allocation_effect [ex_line_jan01, ex_line_jan10] [3, 0] ex_db_fifo)) =
     [(''line-b'', 0), (''line-a'', 3)] \<and>
   map (\<lambda>r. (order_id r, fulfilled_items r, ostatus r))
     (orders (allocation_effect [ex_line_jan01, ex_line_jan10] [5, 3] ex_db_fifo)) =
     [(''order-b'', 3, OIn_progress), (''order-a'', 5, Fulfilled)]"
proof -
  note f = ex_fifo_facts
  have e3: "map (\<lambda>li. (line_item_id li, fulfilled_quantity li))
     (order_line_items (allocation_effect [ex_line_jan01, ex_line_jan10] [3, 0] ex_db_fifo)) =
     [(''line-b'', 0), (''line-a'', 3)]"
    by (simp add: allocation_effect_def f(4)) (simp add: ex_line_jan01_def ex_line_jan10_def)
  have e8: "map (\<lambda>li. (line_item_id li, fulfilled_quantity li))
     (order_line_items (allocation_effect [ex_line_jan01, ex_line_jan10] [5, 3] ex_db_fifo)) =
     [(''line-b'', 3), (''line-a'', 5)]"
    by (simp add: allocation_effect_def f(4)) (simp add: ex_line_jan01_def ex_line_jan10_def)
  have o8: "map (\<lambda>r. (order_id r, fulfilled_items r, ostatus r))
     (orders (allocation_effect [ex_line_jan01, ex_line_jan10] [5, 3] ex_db_fifo)) =
     [(''order-b'', 3, OIn_progress), (''order-a'', 5, Fulfilled)]"
    by (simp add: allocation_effect_def ex_db_fifo_def bump_order_def)
       (simp add: ex_line_jan01_def ex_line_jan10_def ex_order_jan01_def ex_order_jan10_def
          inlineOrderStatus_def)
  have q3: "(0::int) \<le> 3" and q8: "(0::int) \<le> 8" by simp_all
  from fifo_allocation[OF f(1,2,3) q3]
  have a3: "(\<exists>R. allocateMadeQuantityToOrders_helper ex_db_fifo ''variant-1'' 3 =
       Inr (allocation_effect (allocation_rows_helper ex_db_fifo ''variant-1'')
              (fifo_amounts 3 (allocation_rows_helper ex_db_fifo ''variant-1'')) ex_db_fifo, R))"
    and b3: "order_line_items (fst (allocateMadeQuantityToOrders ex_db_fifo ''variant-1'' 3)) =
      order_line_items (allocation_effect (allocation_rows_helper ex_db_fifo ''variant-1'')
              (fifo_amounts 3 (allocation_rows_helper ex_db_fifo ''variant-1'')) ex_db_fifo)"
    by blast+
  from fifo_allocation[OF f(1,2,3) q8]
  have a8: "(\<exists>R. allocateMadeQuantityToOrders_helper ex_db_fifo ''variant-1'' 8 =
       Inr (allocation_effect (allocation_rows_helper ex_db_fifo ''variant-1'')
              (fifo_amounts 8 (allocation_rows_helper ex_db_fifo ''variant-1'')) ex_db_fifo, R))"
    and b8: "order_line_items (fst (allocateMadeQuantityToOrders ex_db_fifo ''variant-1'' 8)) =
      order_line_items (allocation_effect (allocation_rows_helper ex_db_fifo ''variant-1'')
              (fifo_amounts 8 (allocation_rows_helper ex_db_fifo ''variant-1'')) ex_db_fifo)"
    by blast+
  show ?thesis
    using a3[unfolded f(5) f(6)] b3[unfolded f(5) f(6)] a8[unfolded f(5) f(7)]
      b8[unfolded f(5) f(7)] e3 e8 o8
    by simp
qed

subsection \<open>Reporting of newly fulfilled orders\<close>









lemma allocate_loop_orders:
  "orders (fst (allocate_loop L remaining s allocs affected)) = orders s"
  by (induction L arbitrary: remaining s allocs affected) (simp_all add: Let_def)







subsection \<open>The core consistency invariant under the operations\<close>

lemma consistentI:
  assumes "core_invariant s" "distinct (map order_id (orders s))"
    "distinct (map line_item_id (order_line_items s))"
    "\<And>li. li \<in> set (order_line_items s) \<Longrightarrow>
        0 \<le> fulfilled_quantity li \<and> fulfilled_quantity li \<le> quantity li"
    "\<And>li. li \<in> set (order_line_items s) \<Longrightarrow> active s li \<Longrightarrow> quantity li \<noteq> 0 \<Longrightarrow>
        li_variant_id li \<in> variant_id ` set (tasks s)"
  shows "consistent s"
  unfolding consistent_def using assms by blast

lemma consistentD:
  assumes "consistent s"
  shows "core_invariant s" "distinct (map order_id (orders s))"
    "distinct (map line_item_id (order_line_items s))"
    "\<And>li. li \<in> set (order_line_items s) \<Longrightarrow>
        0 \<le> fulfilled_quantity li \<and> fulfilled_quantity li \<le> quantity li"
    "\<And>li. li \<in> set (order_line_items s) \<Longrightarrow> active s li \<Longrightarrow> quantity li \<noteq> 0 \<Longrightarrow>
        li_variant_id li \<in> variant_id ` set (tasks s)"
    "\<And>li. li \<in> set (order_line_items s) \<Longrightarrow> 0 \<le> quantity li"
  using assms unfolding consistent_def by (blast, blast, blast, blast, blast, force)

lemma core_invariantD:
  "core_invariant s \<Longrightarrow> t \<in> set (tasks s) \<Longrightarrow>
   total_quantity t = sum_quantity s (variant_id t) \<and> made_quantity t = sum_fulfilled s (variant_id t)"
  unfolding core_invariant_def by blast

text \<open>Lookups and activity under a row-wise change of the orders table.\<close>

lemma find_map_key:
  assumes "\<And>r. key (g r) = key r"
  shows "find (\<lambda>r. key r = k) (map g xs) = map_option g (find (\<lambda>r. key r = k) xs)"
  by (induction xs) (simp_all add: assms)

lemma getOrder_map:
  assumes "orders s' = map g (orders s)" and "\<And>r. order_id (g r) = order_id r"
  shows "getOrderByOrderId s' k = map_option g (getOrderByOrderId s k)"
  unfolding getOrderByOrderId_def assms(1) by (rule find_map_key) (rule assms(2))

lemma getOrder_mem:
  "getOrderByOrderId s k = Some r \<Longrightarrow> r \<in> set (orders s) \<and> order_id r = k"
  unfolding getOrderByOrderId_def by (drule find_SomeD) simp

lemma active_map:
  assumes "orders s' = map g (orders s)" and "\<And>r. order_id (g r) = order_id r"
    and "\<And>r. r \<in> set (orders s) \<Longrightarrow> (ostatus (g r) = Archived) = (ostatus r = Archived)"
  shows "active s' li = active s li"
proof (cases "getOrderByOrderId s (li_order_id li)")
  case None
  then show ?thesis by (simp add: active_def getOrder_map[OF assms(1,2)])
next
  case (Some r)
  then have "r \<in> set (orders s)" by (simp add: getOrder_mem)
  then show ?thesis using Some assms(3) by (simp add: active_def getOrder_map[OF assms(1,2)])
qed

lemma sums_active:
  assumes "order_line_items s' = order_line_items s"
    and "\<And>li. li \<in> set (order_line_items s) \<Longrightarrow> active s' li = active s li"
  shows "active_items_of s' v = active_items_of s v" "sum_quantity s' v = sum_quantity s v"
    "sum_fulfilled s' v = sum_fulfilled s v"
proof -
  show a: "active_items_of s' v = active_items_of s v"
    unfolding active_items_of_def assms(1) by (rule filter_cong) (simp_all add: assms(2))
  show "sum_quantity s' v = sum_quantity s v" "sum_fulfilled s' v = sum_fulfilled s v"
    by (simp_all add: sum_quantity_def sum_fulfilled_def a)
qed

lemma active_updateAllOrderStatuses: "active (updateAllOrderStatuses s) li = active s li"
  by (rule active_map[OF updateAllOrderStatuses_orders])
     (simp_all add: deriveOrderStatus_def)

lemma items_updateAllOrderStatuses:
  "order_line_items (updateAllOrderStatuses s) = order_line_items s"
  "tasks (updateAllOrderStatuses s) = tasks s"
  by (simp_all add: updateAllOrderStatuses_def)

lemma sums_updateAllOrderStatuses:
  "sum_quantity (updateAllOrderStatuses s) v = sum_quantity s v"
  "sum_fulfilled (updateAllOrderStatuses s) v = sum_fulfilled s v"
  by (rule sums_active; simp add: items_updateAllOrderStatuses active_updateAllOrderStatuses)+

lemma core_invariant_recalculate: "core_invariant (recalculateTaskTotalsFromOrders s)"
  unfolding core_invariant_def recalc_sums by (auto simp: recalc_tasks)

lemma core_invariant_updateAllOrderStatuses:
  "core_invariant s \<Longrightarrow> core_invariant (updateAllOrderStatuses s)"
  by (simp add: core_invariant_def sums_updateAllOrderStatuses items_updateAllOrderStatuses)

lemma core_invariant_sync:
  assumes "getOrderIdsToSkipDuringSync s \<noteq> []"
  shows "core_invariant (sync_shopify s aggregated fetched)"
  using assms unfolding sync_shopify_def Let_def
  by (simp add: core_invariant_updateAllOrderStatuses core_invariant_recalculate)

lemma ex_fifo_consistent:
  "consistent ex_db_fifo" "getOrderIdsToSkipDuringSync ex_db_fifo = []"
  "tasks (sync_shopify ex_db_fifo [] []) = tasks ex_db_fifo"
  "order_line_items (sync_shopify ex_db_fifo [] []) = []"
  by (simp_all add: consistent_def core_invariant_def sum_quantity_def sum_fulfilled_def
      active_items_of_def active_def getOrderByOrderId_def ex_db_fifo_def ex_task_def
      ex_line_jan01_def ex_line_jan10_def ex_order_jan01_def ex_order_jan10_def
      getOrderIdsToSkipDuringSync_def sync_shopify_def clearOrdersWithoutProgress_def Let_def
      updateAllOrderStatuses_def)

theorem sync_without_skipped_orders_counterexample:
  "consistent ex_db_fifo \<and> \<not> core_invariant (sync_shopify ex_db_fifo [] [])"
proof -
  have "sum_quantity (sync_shopify ex_db_fifo [] []) ''variant-1'' = 0"
    by (simp add: sum_quantity_def active_items_of_def ex_fifo_consistent(4))
  then have "\<not> core_invariant (sync_shopify ex_db_fifo [] [])"
    by (simp add: core_invariant_def ex_fifo_consistent(3)) (simp add: ex_db_fifo_def ex_task_def)
  then show ?thesis using ex_fifo_consistent(1) by simp
qed


lemma le_sum_list_int:
  fixes xs :: "int list"
  shows "\<forall>x \<in> set xs. 0 \<le> x \<Longrightarrow> y \<in> set xs \<Longrightarrow> y \<le> sum_list xs"
proof (induction xs)
  case Nil then show ?case by simp
next
  case (Cons x xs)
  have n: "0 \<le> sum_list xs" using Cons.prems(1) by (simp add: sum_list_nonneg)
  show ?case
  proof (cases "y = x")
    case True then show ?thesis using n by simp
  next
    case False
    then have "y \<le> sum_list xs" using Cons by simp
    then show ?thesis using Cons.prems(1) by simp
  qed
qed

lemma quantity_le_sum:
  assumes "\<And>li. li \<in> set (order_line_items s) \<Longrightarrow> 0 \<le> quantity li"
    and "li \<in> set (order_line_items s)" and "active s li"
  shows "quantity li \<le> sum_quantity s (li_variant_id li)"
  unfolding sum_quantity_def
proof (rule le_sum_list_int)
  show "\<forall>x \<in> set (map quantity (active_items_of s (li_variant_id li))). 0 \<le> x"
    using assms(1) by (auto simp: active_items_of_def)
  show "quantity li \<in> set (map quantity (active_items_of s (li_variant_id li)))"
    using assms(2,3) by (auto simp: active_items_of_def)
qed

lemma active_orders: "orders s' = orders s \<Longrightarrow> active s' li = active s li"
  by (simp add: active_def getOrderByOrderId_def)

lemma active_order_id: "li_order_id li' = li_order_id li \<Longrightarrow> active s li' = active s li"
  by (simp add: active_def)

lemma consistent_delete_zero:
  assumes "consistent s"
  shows "consistent (delete_tasks (\<lambda>t. total_quantity t = 0) s)"
proof (rule consistentI)
  let ?s = "delete_tasks (\<lambda>t. total_quantity t = 0) s"
  note c = consistentD[OF assms]
  have fr: "sum_quantity ?s v = sum_quantity s v" "sum_fulfilled ?s v = sum_fulfilled s v" for v
    using sums_frame[of ?s s v] by simp_all
  show "core_invariant ?s"
    using c(1) by (auto simp: core_invariant_def fr)
  show "distinct (map order_id (orders ?s))" using c(2) by simp
  show "distinct (map line_item_id (order_line_items ?s))" using c(3) by simp
  show "0 \<le> fulfilled_quantity li \<and> fulfilled_quantity li \<le> quantity li"
    if "li \<in> set (order_line_items ?s)" for li using that c(4) by simp
  show "li_variant_id li \<in> variant_id ` set (tasks ?s)"
    if m: "li \<in> set (order_line_items ?s)" and a: "active ?s li" and q: "quantity li \<noteq> 0" for li
  proof -
    have m': "li \<in> set (order_line_items s)" using m by simp
    have a': "active s li" using a by (simp add: active_orders[of ?s s])
    obtain t where t: "t \<in> set (tasks s)" "variant_id t = li_variant_id li"
      using c(5)[OF m' a' q] by auto
    have "quantity li \<le> sum_quantity s (li_variant_id li)"
      using m' a' c(6) by (intro quantity_le_sum)
    moreover have "0 \<le> quantity li" using c(4)[OF m'] by simp
    ultimately have "0 < total_quantity t"
      using q core_invariantD[OF c(1) t(1)] t(2) by simp
    then have "t \<in> set (tasks ?s)" using t(1) by simp
    then show ?thesis using t(2) by (metis imageI)
  qed
qed

lemma consistent_recalculate:
  assumes "consistent s"
  shows "consistent (recalculateTaskTotalsFromOrders s)"
proof (rule consistentI)
  let ?s = "recalculateTaskTotalsFromOrders s"
  note c = consistentD[OF assms]
  show "core_invariant ?s" by (rule core_invariant_recalculate)
  show "distinct (map order_id (orders ?s))" using c(2) by (simp add: orders_after_tasks_steps)
  show "distinct (map line_item_id (order_line_items ?s))"
    using c(3) by (simp add: orders_after_tasks_steps)
  show "0 \<le> fulfilled_quantity li \<and> fulfilled_quantity li \<le> quantity li"
    if "li \<in> set (order_line_items ?s)" for li
    using that c(4) by (simp add: orders_after_tasks_steps)
  show "li_variant_id li \<in> variant_id ` set (tasks ?s)"
    if m: "li \<in> set (order_line_items ?s)" and a: "active ?s li" and q: "quantity li \<noteq> 0" for li
  proof -
    have m': "li \<in> set (order_line_items s)" using m by (simp add: orders_after_tasks_steps)
    have a': "active s li"
      using a by (simp add: active_orders[of ?s s] orders_after_tasks_steps)
    obtain t where t: "t \<in> set (tasks s)" "variant_id t = li_variant_id li"
      using c(5)[OF m' a' q] by auto
    have "quantity li \<le> sum_quantity s (li_variant_id li)"
      using m' a' c(6) by (intro quantity_le_sum)
    moreover have "0 \<le> quantity li" using c(4)[OF m'] by simp
    ultimately have p: "sum_quantity s (variant_id t) \<noteq> 0" using q t(2) by simp
    define t' where "t' = t\<lparr>total_quantity := sum_quantity s (variant_id t),
                  made_quantity := sum_fulfilled s (variant_id t),
                  status := deriveTaskStatus (sum_fulfilled s (variant_id t))
                              (sum_quantity s (variant_id t))\<rparr>"
    have "t' \<in> set (tasks ?s)" unfolding recalc_tasks t'_def using t(1) p by simp
    moreover have "variant_id t' = li_variant_id li" by (simp add: t'_def t(2))
    ultimately show ?thesis by (metis imageI)
  qed
qed

text \<open>Sums after a row-wise change of the line items that keeps variant and order.\<close>

lemma sums_map_items:
  assumes "order_line_items s' = map g (order_line_items s)"
    and "\<And>li. li_variant_id (g li) = li_variant_id li"
    and "\<And>li. li_order_id (g li) = li_order_id li"
    and "\<And>li. active s' li = active s li"
  shows "active_items_of s' w = map g (active_items_of s w)"
proof -
  have "active s' (g li) = active s li" for li
    using assms(4)[of "g li"] active_order_id[OF assms(3), of s li] by simp
  then show ?thesis
    by (simp add: active_items_of_def assms(1) filter_map o_def assms(2))
qed

lemma tables_resetVariantInOrders:
  "tasks (resetVariantInOrders s v) = tasks s"
  "order_line_items (resetVariantInOrders s v) =
     map (\<lambda>li. if li_variant_id li = v then li\<lparr>fulfilled_quantity := 0\<rparr> else li)
       (order_line_items s)"
  "map order_id (orders (resetVariantInOrders s v)) = map order_id (orders s)"
  "active (resetVariantInOrders s v) li = active s li"
  by (simp_all add: resetVariantInOrders_def items_updateAllOrderStatuses
      active_updateAllOrderStatuses updateAllOrderStatuses_orders o_def
      active_orders[of "update_line_items _ _ s" s])

lemma consistent_reset:
  assumes "consistent s"
  shows "consistent (resetVariantInOrders (resetTask s v) v)"
proof (rule consistentI)
  let ?g = "\<lambda>li. if li_variant_id li = v then li\<lparr>fulfilled_quantity := 0\<rparr> else li"
  let ?s = "resetVariantInOrders (resetTask s v) v"
  note c = consistentD[OF assms]
  have o: "orders (resetTask s v) = orders s" by (simp add: resetTask_def)
  have act: "active ?s li = active s li" for li
    by (simp add: tables_resetVariantInOrders active_orders[OF o])
  have items: "order_line_items ?s = map ?g (order_line_items s)"
    by (simp add: tables_resetVariantInOrders resetTask_def)
  have tk: "tasks ?s = map (\<lambda>t. if variant_id t = v
        then t\<lparr>made_quantity := 0, status := deriveTaskStatus 0 (total_quantity t)\<rparr> else t) (tasks s)"
    by (simp add: tables_resetVariantInOrders resetTask_def updateTaskStatus_def)
  have ai: "active_items_of ?s w = map ?g (active_items_of s w)" for w
    by (rule sums_map_items[OF items]) (simp_all add: act)
  have sq: "sum_quantity ?s w = sum_quantity s w" for w
    unfolding sum_quantity_def ai by (simp add: o_def) (rule arg_cong[where f=sum_list], simp)
  have sf: "sum_fulfilled ?s w = (if w = v then 0 else sum_fulfilled s w)" for w
  proof (cases "w = v")
    case True
    have e: "map fulfilled_quantity (map ?g (active_items_of s v)) =
          map (\<lambda>li. 0) (active_items_of s v)"
      unfolding map_map by (rule map_cong) (simp_all add: active_items_of_def)
    show ?thesis unfolding True sum_fulfilled_def ai e by simp
  next
    case False
    have e: "map fulfilled_quantity (map ?g (active_items_of s w)) =
          map fulfilled_quantity (active_items_of s w)"
      unfolding map_map using False by (intro map_cong) (auto simp: active_items_of_def)
    show ?thesis unfolding sum_fulfilled_def ai e using False by simp
  qed
  show "core_invariant ?s"
    using c(1) by (auto simp: core_invariant_def tk sq sf)
  show "distinct (map order_id (orders ?s))"
    using c(2) by (simp add: tables_resetVariantInOrders resetTask_def)
  show "distinct (map line_item_id (order_line_items ?s))"
    using c(3) by (simp add: items o_def if_distrib[of line_item_id] cong: if_cong)
  show "0 \<le> fulfilled_quantity li \<and> fulfilled_quantity li \<le> quantity li"
    if "li \<in> set (order_line_items ?s)" for li
    using that c(4) c(6) by (auto simp: items)
  show "li_variant_id li \<in> variant_id ` set (tasks ?s)"
    if m: "li \<in> set (order_line_items ?s)" and a: "active ?s li" and q: "quantity li \<noteq> 0" for li
  proof -
    obtain l0 where l0: "l0 \<in> set (order_line_items s)" "li = ?g l0" using m by (auto simp: items)
    have 1: "li_variant_id li = li_variant_id l0" "quantity li = quantity l0"
      "li_order_id li = li_order_id l0" by (simp_all add: l0(2))
    have "active s l0" using a act active_order_id[OF 1(3), of s] by simp
    then have "li_variant_id l0 \<in> variant_id ` set (tasks s)" using c(5)[OF l0(1)] q 1(2) by simp
    moreover have "variant_id ` set (tasks ?s) = variant_id ` set (tasks s)"
      by (simp add: tk image_image if_distrib[of variant_id] cong: if_cong)
    ultimately show ?thesis by (simp add: 1(1))
  qed
qed


text \<open>Allocation after the record of production.\<close>

lemma sum_list_insort_key:
  fixes h :: "'a \<Rightarrow> int"
  shows "sum_list (map h (insort_key k x ys)) = h x + sum_list (map h ys)"
  by (induction ys) simp_all

lemma sum_list_sort_key:
  fixes h :: "'a \<Rightarrow> int"
  shows "sum_list (map h (sort_key k xs)) = sum_list (map h xs)"
  by (induction xs) (simp_all add: sum_list_insort_key)

lemma allocated_sum:
  "distinct (map line_item_id L) \<Longrightarrow> length A = length L \<Longrightarrow>
   sum_list (map (\<lambda>li. allocated_to L A (line_item_id li)) L) = sum_list A"
proof (induction L arbitrary: A)
  case Nil then show ?case by simp
next
  case (Cons x L)
  obtain a A' where A: "A = a # A'" using Cons.prems(2) by (cases A) auto
  have n: "line_item_id x \<notin> line_item_id ` set L" using Cons.prems(1) by simp
  have e1: "map (\<lambda>li. allocated_to (x # L) (a # A') (line_item_id li)) L =
        map (\<lambda>li. allocated_to L A' (line_item_id li)) L"
    using n by (intro map_cong refl) auto
  have e2: "sum_list (map (\<lambda>li. allocated_to L A' (line_item_id li)) L) = sum_list A'"
    using Cons.prems by (intro Cons.IH) (simp_all add: A)
  have e3: "allocated_to L A' (line_item_id x) = 0" using n by (rule allocated_to_absent)
  show ?case unfolding A list.map sum_list.Cons e1 e2 by (simp add: e3)
qed

lemma allocated_bounds:
  assumes "distinct (map line_item_id L)" and "0 \<le> remaining"
    and "\<forall>li \<in> set L. fulfilled_quantity li \<le> quantity li" and "li \<in> set L"
  shows "0 \<le> allocated_to L (fifo_amounts remaining L) (line_item_id li) \<and>
         allocated_to L (fifo_amounts remaining L) (line_item_id li)
           \<le> quantity li - fulfilled_quantity li"
  using assms
proof (induction L arbitrary: remaining)
  case Nil then show ?case by simp
next
  case (Cons x L)
  have n: "line_item_id x \<notin> line_item_id ` set L" using Cons.prems(1) by simp
  define a where "a = min (quantity x - fulfilled_quantity x) remaining"
  have a: "0 \<le> a" "a \<le> quantity x - fulfilled_quantity x" "0 \<le> remaining - a"
    using Cons.prems(2,3) by (simp_all add: a_def)
  show ?case
  proof (cases "li = x")
    case True
    show ?thesis using a allocated_to_absent[OF n, of "fifo_amounts (remaining - a) L"]
      by (simp add: True a_def[symmetric])
  next
    case False
    then have m: "li \<in> set L" using Cons.prems(4) by simp
    then have d: "line_item_id x \<noteq> line_item_id li" using n by auto
    have "0 \<le> allocated_to L (fifo_amounts (remaining - a) L) (line_item_id li) \<and>
         allocated_to L (fifo_amounts (remaining - a) L) (line_item_id li)
           \<le> quantity li - fulfilled_quantity li"
      using Cons.prems(1,3) a(3) m by (intro Cons.IH) simp_all
    then show ?thesis using d by (simp add: a_def[symmetric])
  qed
qed

lemma allocate_loop_tasks:
  "tasks (fst (allocate_loop L remaining s allocs affected)) = tasks s"
  by (induction L arbitrary: remaining s allocs affected) (simp_all add: Let_def)

lemma tables_allocate:
  "tasks (fst (allocateMadeQuantityToOrders s v qty)) = tasks s"
  "map order_id (orders (fst (allocateMadeQuantityToOrders s v qty))) = map order_id (orders s)"
  "active (fst (allocateMadeQuantityToOrders s v qty)) li = active s li"
proof -
  define s1 where "s1 = fst (allocate_loop (allocation_rows s v) qty s [] [])"
  have f: "fst (allocateMadeQuantityToOrders s v qty) = updateAllOrderStatuses s1"
    by (simp add: allocateMadeQuantityToOrders_def Let_def split_beta s1_def)
  have o: "orders s1 = orders s" unfolding s1_def by (rule allocate_loop_orders)
  show "tasks (fst (allocateMadeQuantityToOrders s v qty)) = tasks s"
    by (simp add: f items_updateAllOrderStatuses s1_def allocate_loop_tasks)
  show "map order_id (orders (fst (allocateMadeQuantityToOrders s v qty))) = map order_id (orders s)"
    by (simp add: f updateAllOrderStatuses_orders o o_def)
  show "active (fst (allocateMadeQuantityToOrders s v qty)) li = active s li"
    by (simp add: f active_updateAllOrderStatuses active_orders[OF o])
qed

lemma sum_fulfilled_le:
  assumes "consistent s"
  shows "sum_fulfilled s v \<le> sum_quantity s v"
  unfolding sum_fulfilled_def sum_quantity_def
  using consistentD(4)[OF assms] by (intro sum_list_mono) (simp add: active_items_of_def)

lemma allocate_reestablishes:
  assumes c: "consistent s"
    and o1: "orders s1 = orders s" and i1: "order_line_items s1 = order_line_items s"
    and t1: "tasks s1 = map (\<lambda>t. if variant_id t = v then U t else t) (tasks s)"
    and U: "\<And>t. t \<in> set (tasks s) \<Longrightarrow> variant_id t = v \<Longrightarrow>
              variant_id (U t) = v \<and> total_quantity (U t) = total_quantity t \<and>
              made_quantity (U t) = made_quantity t + x"
    and x: "0 \<le> x" "x \<le> sum_quantity s v - sum_fulfilled s v"
  shows "consistent (fst (allocateMadeQuantityToOrders s1 v x))"
proof (rule consistentI)
  let ?s = "fst (allocateMadeQuantityToOrders s1 v x)"
  note d = consistentD[OF c]
  define rows where "rows = allocation_rows_helper s v"
  define plan where "plan = fifo_amounts x rows"
  define G :: "line_item \<Rightarrow> line_item" where "G = (\<lambda>li. li\<lparr>fulfilled_quantity :=
      fulfilled_quantity li + allocated_to rows plan (line_item_id li)\<rparr>)"
  have a1: "active s1 li = active s li" for li by (rule active_orders[OF o1])
  have av1: "active_items_of s1 w = active_items_of s w" for w
    using sums_frame[OF o1 i1] by simp
  have pd: "parent_date s1 = parent_date s"
    by (rule ext) (simp add: parent_date_def getOrderByOrderId_def o1)
  have rows1: "allocation_rows_helper s1 v = rows"
    by (simp add: rows_def allocation_rows_helper_def av1 pd)
  have rset: "set rows = {li \<in> set (order_line_items s). li_variant_id li = v \<and> active s li}"
    unfolding rows_def by (rule rows_helper_facts)
  have rdist: "distinct (map line_item_id rows)"
    unfolding rows_def using d(3) by (rule rows_helper_facts)
  have rle: "\<forall>li \<in> set rows. fulfilled_quantity li \<le> quantity li"
    using d(4) by (simp add: rset)
  have w1: "\<forall>li \<in> set (order_line_items s1). li_variant_id li = v \<and> active s1 li \<longrightarrow>
           fulfilled_quantity li \<le> quantity li"
    using d(4) by (simp add: i1)
  have items: "order_line_items ?s = map G (order_line_items s)"
    unfolding allocate_line_items[OF w1 x(1)] rows1 plan_def[symmetric]
    by (simp add: allocation_effect_def i1 G_def)
  have act: "active ?s li = active s li" for li by (simp add: tables_allocate a1)
  have tk: "tasks ?s = map (\<lambda>t. if variant_id t = v then U t else t) (tasks s)"
    by (simp add: tables_allocate t1)
  have ai: "active_items_of ?s w = map G (active_items_of s w)" for w
    by (rule sums_map_items[OF items]) (simp_all add: act G_def)
  have sq: "sum_quantity ?s w = sum_quantity s w" for w
    unfolding sum_quantity_def ai map_map by (rule arg_cong[where f=sum_list]) (simp add: G_def)
  have split: "sum_fulfilled ?s w = sum_fulfilled s w +
      sum_list (map (\<lambda>li. allocated_to rows plan (line_item_id li)) (active_items_of s w))" for w
    unfolding sum_fulfilled_def ai map_map by (simp add: G_def o_def sum_list_addf)
  have other: "allocated_to rows plan (line_item_id li) = 0"
    if m: "li \<in> set (order_line_items s)" and n: "li \<notin> set rows" for li
  proof (rule allocated_to_absent, rule notI)
    assume "line_item_id li \<in> line_item_id ` set rows"
    then obtain r where r: "r \<in> set rows" "line_item_id r = line_item_id li" by auto
    then have "r \<in> set (order_line_items s)" by (simp add: rset)
    then have "r = li" using d(3) m r(2) by (auto simp: distinct_map dest: inj_onD)
    then show False using r(1) n by simp
  qed
  have sfo: "sum_fulfilled ?s w = sum_fulfilled s w" if "w \<noteq> v" for w
  proof -
    have e: "map (\<lambda>li. allocated_to rows plan (line_item_id li)) (active_items_of s w) =
          map (\<lambda>li. 0) (active_items_of s w)"
      using that by (intro map_cong refl other) (auto simp: active_items_of_def rset)
    show ?thesis unfolding split e by simp
  qed
  have rooms: "sum_list (map (\<lambda>li. quantity li - fulfilled_quantity li) rows) =
      sum_quantity s v - sum_fulfilled s v"
    unfolding rows_def allocation_rows_helper_def sum_list_sort_key
    by (simp add: sum_quantity_def sum_fulfilled_def sum_list_subtractf)
  have sfv: "sum_fulfilled ?s v = sum_fulfilled s v + x"
  proof -
    have "sum_list (map (\<lambda>li. allocated_to rows plan (line_item_id li)) (active_items_of s v)) =
          sum_list (map (\<lambda>li. allocated_to rows plan (line_item_id li)) rows)"
      unfolding rows_def allocation_rows_helper_def sum_list_sort_key ..
    also have "\<dots> = sum_list plan"
      using rdist by (rule allocated_sum) (simp add: plan_def)
    also have "\<dots> = min x (sum_list (map (\<lambda>li. quantity li - fulfilled_quantity li) rows))"
      unfolding plan_def using x(1) rle by (rule fifo_amounts_sum)
    also have "\<dots> = x" using x(2) by (simp add: rooms)
    finally show ?thesis unfolding split by simp
  qed
  show "core_invariant ?s"
    unfolding core_invariant_def tk
  proof
    fix t' assume "t' \<in> set (map (\<lambda>t. if variant_id t = v then U t else t) (tasks s))"
    then obtain t where t: "t \<in> set (tasks s)" "t' = (if variant_id t = v then U t else t)"
      by auto
    note inv = core_invariantD[OF d(1) t(1)]
    show "total_quantity t' = sum_quantity ?s (variant_id t') \<and>
          made_quantity t' = sum_fulfilled ?s (variant_id t')"
    proof (cases "variant_id t = v")
      case True
      then show ?thesis using U[OF t(1) True] inv by (simp add: t(2) sq sfv)
    next
      case False
      then show ?thesis using inv by (simp add: t(2) sq sfo)
    qed
  qed
  show "distinct (map order_id (orders ?s))" using d(2) by (simp add: tables_allocate o1)
  show "distinct (map line_item_id (order_line_items ?s))"
    using d(3) by (simp add: items o_def G_def)
  show "0 \<le> fulfilled_quantity li \<and> fulfilled_quantity li \<le> quantity li"
    if m: "li \<in> set (order_line_items ?s)" for li
  proof -
    obtain l0 where l0: "l0 \<in> set (order_line_items s)" "li = G l0" using m by (auto simp: items)
    show ?thesis
    proof (cases "l0 \<in> set rows")
      case True
      show ?thesis using allocated_bounds[OF rdist x(1) rle True] d(4)[OF l0(1)]
        by (simp add: l0(2) G_def plan_def)
    next
      case False
      show ?thesis using other[OF l0(1) False] d(4)[OF l0(1)] by (simp add: l0(2) G_def)
    qed
  qed
  show "li_variant_id li \<in> variant_id ` set (tasks ?s)"
    if m: "li \<in> set (order_line_items ?s)" and a: "active ?s li" and q: "quantity li \<noteq> 0" for li
  proof -
    obtain l0 where l0: "l0 \<in> set (order_line_items s)" "li = G l0" using m by (auto simp: items)
    have 1: "li_variant_id li = li_variant_id l0" "quantity li = quantity l0"
      "li_order_id li = li_order_id l0" by (simp_all add: l0(2) G_def)
    have "active s l0" using a act active_order_id[OF 1(3), of s] by simp
    then obtain t where t: "t \<in> set (tasks s)" "variant_id t = li_variant_id l0"
      using d(5)[OF l0(1)] q 1(2) by auto
    define t' where "t' = (if variant_id t = v then U t else t)"
    have "t' \<in> set (tasks ?s)" unfolding tk t'_def using t(1) by simp
    moreover have "variant_id t' = li_variant_id li"
      using U[OF t(1)] t(2) by (simp add: t'_def 1(1))
    ultimately show ?thesis by (metis imageI)
  qed
qed


lemma consistent_mark_made:
  assumes c: "consistent s"
  shows "consistent (snd (mark_made s v qty))"
proof (cases "v = [] \<or> qty < 1")
  case True
  then show ?thesis using c by (auto simp: mark_made_def)
next
  case ok: False
  show ?thesis
  proof (cases "getTaskByVariantId s v")
    case None
    then show ?thesis using c ok by (simp add: mark_made_def updateMadeQuantity_def)
  next
    case (Some task)
    note tk = getTask_Some_variant[OF Some]
    note inv = core_invariantD[OF consistentD(1)[OF c] tk[THEN conjunct2]]
    show ?thesis
    proof (cases "made_quantity task + qty > total_quantity task")
      case True
      then show ?thesis using c ok Some by (simp add: mark_made_def updateMadeQuantity_def)
    next
      case False
      define U where "U = (\<lambda>t::task. t\<lparr>made_quantity := made_quantity t + qty,
          status := deriveTaskStatus (made_quantity t + qty) (total_quantity t)\<rparr>)"
      define s1 where "s1 = updateTaskStatus (update_tasks (\<lambda>t. variant_id t = v)
                    (\<lambda>t. t\<lparr>made_quantity := made_quantity t + qty\<rparr>) s) v"
      have e: "snd (mark_made s v qty) = fst (allocateMadeQuantityToOrders s1 v qty)"
        using ok Some False
        by (simp add: mark_made_def updateMadeQuantity_def s1_def split_beta)
      show ?thesis unfolding e
      proof (rule allocate_reestablishes[OF c, where U=U])
        show "orders s1 = orders s" "order_line_items s1 = order_line_items s"
          by (simp_all add: s1_def)
        show "tasks s1 = map (\<lambda>t. if variant_id t = v then U t else t) (tasks s)"
          by (simp add: s1_def updateTaskStatus_def U_def)
        show "variant_id (U t) = v \<and> total_quantity (U t) = total_quantity t \<and>
              made_quantity (U t) = made_quantity t + qty"
          if "t \<in> set (tasks s)" "variant_id t = v" for t
          using that by (simp add: U_def)
        show "0 \<le> qty" using ok by simp
        show "qty \<le> sum_quantity s v - sum_fulfilled s v"
          using False inv tk by simp
      qed
    qed
  qed
qed

lemma consistent_mark_complete:
  assumes c: "consistent s"
  shows "consistent (snd (mark_complete s v))"
proof (cases "v = []")
  case True
  then show ?thesis using c by (simp add: mark_complete_def)
next
  case ok: False
  show ?thesis
  proof (cases "getTaskByVariantId s v")
    case None
    then show ?thesis using c ok by (simp add: mark_complete_def)
  next
    case (Some task)
    note tk = getTask_Some_variant[OF Some]
    note d = consistentD[OF c]
    note inv = core_invariantD[OF d(1) tk[THEN conjunct2]]
    define U where "U = (\<lambda>t::task. t\<lparr>made_quantity := total_quantity t,
          status := deriveTaskStatus (total_quantity t) (total_quantity t)\<rparr>)"
    define s1 where "s1 = markTaskComplete s v"
    define x where "x = total_quantity task - made_quantity task"
    have x: "x = sum_quantity s v - sum_fulfilled s v" using inv tk by (simp add: x_def)
    have x0: "0 \<le> x" unfolding x using sum_fulfilled_le[OF c, of v] by simp
    have o1: "orders s1 = orders s" "order_line_items s1 = order_line_items s"
      by (simp_all add: s1_def markTaskComplete_def)
    have t1: "tasks s1 = map (\<lambda>t. if variant_id t = v then U t else t) (tasks s)"
      by (simp add: s1_def markTaskComplete_def updateTaskStatus_def U_def)
    have U: "variant_id (U t) = v \<and> total_quantity (U t) = total_quantity t \<and>
              made_quantity (U t) = made_quantity t + x"
      if "t \<in> set (tasks s)" "variant_id t = v" for t
      using core_invariantD[OF d(1) that(1)] that(2) by (simp add: U_def x)
    show ?thesis
    proof (cases "0 < x")
      case True
      have e: "snd (mark_complete s v) = fst (allocateMadeQuantityToOrders s1 v x)"
        using ok Some True
        by (simp add: mark_complete_def Let_def s1_def x_def split_beta)
      have xle: "x \<le> sum_quantity s v - sum_fulfilled s v" unfolding x by (rule order_refl)
      show ?thesis unfolding e
        by (rule allocate_reestablishes[OF c o1 t1 U x0 xle])
    next
      case False
      then have z: "x = 0" using x0 by simp
      have e: "snd (mark_complete s v) = s1"
        using ok Some z by (simp add: mark_complete_def Let_def s1_def x_def)
      have fr: "sum_quantity s1 w = sum_quantity s w" "sum_fulfilled s1 w = sum_fulfilled s w"
        for w using sums_frame[OF o1, of w] by simp_all
      show ?thesis unfolding e
      proof (rule consistentI)
        show "core_invariant s1"
          unfolding core_invariant_def t1 fr
        proof
          fix t' assume "t' \<in> set (map (\<lambda>t. if variant_id t = v then U t else t) (tasks s))"
          then obtain t where t: "t \<in> set (tasks s)" "t' = (if variant_id t = v then U t else t)"
            by auto
          show "total_quantity t' = sum_quantity s (variant_id t') \<and>
                made_quantity t' = sum_fulfilled s (variant_id t')"
            using core_invariantD[OF d(1) t(1)] U[OF t(1)] z by (auto simp: t(2))
        qed
        show "distinct (map order_id (orders s1))" using d(2) by (simp add: o1)
        show "distinct (map line_item_id (order_line_items s1))" using d(3) by (simp add: o1)
        show "0 \<le> fulfilled_quantity li \<and> fulfilled_quantity li \<le> quantity li"
          if "li \<in> set (order_line_items s1)" for li using that d(4) by (simp add: o1)
        show "li_variant_id li \<in> variant_id ` set (tasks s1)"
          if m: "li \<in> set (order_line_items s1)" and a: "active s1 li" and q: "quantity li \<noteq> 0"
          for li
        proof -
          have "li_variant_id li \<in> variant_id ` set (tasks s)"
            using d(5)[of li] m a q by (simp add: o1 active_orders[OF o1(1)])
          moreover have "variant_id ` set (tasks s1) = variant_id ` set (tasks s)"
            unfolding t1 set_map image_image
            by (rule image_cong) (auto simp: U_def)
          ultimately show ?thesis by simp
        qed
      qed
    qed
  qed
qed


text \<open>Archiving an order.\<close>

lemma archive_item_tasks:
  "\<exists>A. tasks (archive_item s i) =
         map (\<lambda>t. if variant_id t = li_variant_id i then A t else t) (tasks s) \<and>
       (\<forall>t. variant_id (A t) = variant_id t \<and>
            total_quantity (A t) = max 0 (total_quantity t - quantity i) \<and>
            made_quantity (A t) =
              (if fulfilled_quantity i > 0 then max 0 (made_quantity t - fulfilled_quantity i)
               else made_quantity t))"
proof (cases "fulfilled_quantity i > 0")
  case True
  show ?thesis
    by (rule exI[where x="\<lambda>t. t\<lparr>made_quantity := max 0 (made_quantity t - fulfilled_quantity i),
          total_quantity := max 0 (total_quantity t - quantity i),
          status := deriveTaskStatus (max 0 (made_quantity t - fulfilled_quantity i))
                      (max 0 (total_quantity t - quantity i))\<rparr>"])
       (simp add: archive_item_def updateTaskStatus_def True)
next
  case False
  show ?thesis
    by (rule exI[where x="\<lambda>t. t\<lparr>total_quantity := max 0 (total_quantity t - quantity i),
          status := deriveTaskStatus (made_quantity t)
                      (max 0 (total_quantity t - quantity i))\<rparr>"])
       (simp add: archive_item_def updateTaskStatus_def False)
qed

lemma archive_item_frame:
  "orders (archive_item s i) = orders s" "order_line_items (archive_item s i) = order_line_items s"
  by (simp_all add: archive_item_def)

lemma archive_fold:
  assumes "\<forall>i \<in> set items. 0 \<le> fulfilled_quantity i \<and> 0 \<le> quantity i"
    and "\<forall>t \<in> set (tasks s).
           sum_list (map quantity (filter (\<lambda>i. li_variant_id i = variant_id t) items))
             \<le> total_quantity t \<and>
           sum_list (map fulfilled_quantity (filter (\<lambda>i. li_variant_id i = variant_id t) items))
             \<le> made_quantity t"
  shows "map variant_id (tasks (foldl archive_item s items)) = map variant_id (tasks s) \<and>
     map total_quantity (tasks (foldl archive_item s items)) =
       map (\<lambda>t. total_quantity t -
              sum_list (map quantity (filter (\<lambda>i. li_variant_id i = variant_id t) items)))
         (tasks s) \<and>
     map made_quantity (tasks (foldl archive_item s items)) =
       map (\<lambda>t. made_quantity t -
              sum_list (map fulfilled_quantity (filter (\<lambda>i. li_variant_id i = variant_id t) items)))
         (tasks s)"
  using assms
proof (induction items arbitrary: s)
  case Nil
  show ?case by simp
next
  case (Cons i rest)
  let ?Q = "\<lambda>w. sum_list (map quantity (filter (\<lambda>i. li_variant_id i = w) rest))"
  let ?F = "\<lambda>w. sum_list (map fulfilled_quantity (filter (\<lambda>i. li_variant_id i = w) rest))"
  define s1 where "s1 = archive_item s i"
  obtain A where t1: "tasks s1 =
         map (\<lambda>t. if variant_id t = li_variant_id i then A t else t) (tasks s)"
    and A: "\<And>t. variant_id (A t) = variant_id t"
      "\<And>t. total_quantity (A t) = max 0 (total_quantity t - quantity i)"
      "\<And>t. made_quantity (A t) =
              (if fulfilled_quantity i > 0 then max 0 (made_quantity t - fulfilled_quantity i)
               else made_quantity t)"
    using archive_item_tasks[of s i] unfolding s1_def by blast
  have nn: "\<forall>i \<in> set rest. 0 \<le> fulfilled_quantity i \<and> 0 \<le> quantity i"
    and i0: "0 \<le> fulfilled_quantity i" "0 \<le> quantity i"
    using Cons.prems(1) by simp_all
  have Q0: "0 \<le> ?Q w" and F0: "0 \<le> ?F w" for w
    using nn by (auto intro!: sum_list_nonneg)
  have b: "(if li_variant_id i = variant_id t then quantity i else 0) + ?Q (variant_id t)
             \<le> total_quantity t"
      "(if li_variant_id i = variant_id t then fulfilled_quantity i else 0) + ?F (variant_id t)
             \<le> made_quantity t"
    if "t \<in> set (tasks s)" for t
    using Cons.prems(2) that by (auto split: if_splits)
  have b1: "\<forall>t \<in> set (tasks s1). ?Q (variant_id t) \<le> total_quantity t \<and>
              ?F (variant_id t) \<le> made_quantity t"
  proof
    fix t' assume "t' \<in> set (tasks s1)"
    then obtain t where t: "t \<in> set (tasks s)"
      "t' = (if variant_id t = li_variant_id i then A t else t)" by (auto simp: t1)
    show "?Q (variant_id t') \<le> total_quantity t' \<and> ?F (variant_id t') \<le> made_quantity t'"
      using b[OF t(1)] i0 by (auto simp: t(2) A split: if_splits)
  qed
  note ih = Cons.IH[OF nn b1]
  have e1: "map variant_id (tasks s1) = map variant_id (tasks s)"
    unfolding t1 map_map by (rule map_cong) (simp_all add: A)
  have e2: "map (\<lambda>t. total_quantity t - ?Q (variant_id t)) (tasks s1) =
        map (\<lambda>t. total_quantity t -
              sum_list (map quantity (filter (\<lambda>j. li_variant_id j = variant_id t) (i # rest))))
         (tasks s)"
    unfolding t1 map_map
  proof (rule map_cong[OF refl])
    fix t assume "t \<in> set (tasks s)"
    from b[OF this] Q0[of "variant_id t"] i0
    show "((\<lambda>t. total_quantity t - ?Q (variant_id t)) \<circ>
            (\<lambda>t. if variant_id t = li_variant_id i then A t else t)) t =
          total_quantity t -
            sum_list (map quantity (filter (\<lambda>j. li_variant_id j = variant_id t) (i # rest)))"
      by (auto simp: A)
  qed
  have e3: "map (\<lambda>t. made_quantity t - ?F (variant_id t)) (tasks s1) =
        map (\<lambda>t. made_quantity t -
              sum_list (map fulfilled_quantity
                 (filter (\<lambda>j. li_variant_id j = variant_id t) (i # rest))))
         (tasks s)"
    unfolding t1 map_map
  proof (rule map_cong[OF refl])
    fix t assume "t \<in> set (tasks s)"
    from b[OF this] F0[of "variant_id t"] i0
    show "((\<lambda>t. made_quantity t - ?F (variant_id t)) \<circ>
            (\<lambda>t. if variant_id t = li_variant_id i then A t else t)) t =
          made_quantity t -
            sum_list (map fulfilled_quantity
               (filter (\<lambda>j. li_variant_id j = variant_id t) (i # rest)))"
      by (auto simp: A)
  qed
  show ?case
    unfolding foldl_Cons s1_def[symmetric] using ih by (simp only: e1 e2 e3) 
qed

lemma archive_fold_frame:
  "orders (foldl archive_item s items) = orders s"
  "order_line_items (foldl archive_item s items) = order_line_items s"
  by (rule foldl_keeps, simp add: archive_item_frame)+


lemma sum_list_filter_split:
  fixes h :: "'a \<Rightarrow> int"
  shows "sum_list (map h (filter P xs)) =
     sum_list (map h (filter (\<lambda>x. P x \<and> Q x) xs)) +
     sum_list (map h (filter (\<lambda>x. P x \<and> \<not> Q x) xs))"
  by (induction xs) simp_all

lemma active_set_status:
  assumes "orders s' = map (\<lambda>r. if order_id r = oid then r\<lparr>ostatus := st\<rparr> else r) (orders s)"
  shows "active s' li =
     (if li_order_id li = oid then getOrderByOrderId s oid \<noteq> None \<and> st \<noteq> Archived
      else active s li)"
proof -
  have g: "getOrderByOrderId s' k =
      map_option (\<lambda>r. if order_id r = oid then r\<lparr>ostatus := st\<rparr> else r) (getOrderByOrderId s k)"
    for k by (rule getOrder_map[OF assms]) simp
  show ?thesis
  proof (cases "getOrderByOrderId s (li_order_id li)")
    case None
    then show ?thesis by (auto simp: active_def g)
  next
    case (Some r)
    then have "order_id r = li_order_id li" by (simp add: getOrder_mem)
    then show ?thesis using Some by (auto simp: active_def g)
  qed
qed

lemma sums_toggle:
  fixes h :: "line_item \<Rightarrow> int"
  assumes i: "order_line_items s' = order_line_items s"
    and off: "\<And>li. li_order_id li \<noteq> oid \<Longrightarrow> active s' li = active s li"
    and on: "\<And>li. li_order_id li = oid \<Longrightarrow> active s2 li" "\<And>li. li_order_id li = oid \<Longrightarrow> \<not> active s1 li"
    and s12: "(s1 = s \<and> s2 = s') \<or> (s1 = s' \<and> s2 = s)"
  shows "sum_list (map h (active_items_of s2 w)) =
         sum_list (map h (active_items_of s1 w)) +
         sum_list (map h (filter (\<lambda>i. li_variant_id i = w) (getOrderLineItems s oid)))"
proof -
  have i12: "order_line_items s1 = order_line_items s" "order_line_items s2 = order_line_items s"
    using s12 i by auto
  have a12: "active s1 li = active s2 li" if "li_order_id li \<noteq> oid" for li
    using s12 off[OF that] by auto
  have 1: "filter (\<lambda>li. (li_variant_id li = w \<and> active s2 li) \<and> li_order_id li \<noteq> oid)
             (order_line_items s) = active_items_of s1 w"
    unfolding active_items_of_def i12
    using a12 on(2) by (intro filter_cong refl) auto
  have 2: "filter (\<lambda>li. (li_variant_id li = w \<and> active s2 li) \<and> \<not> li_order_id li \<noteq> oid)
             (order_line_items s) = filter (\<lambda>i. li_variant_id i = w) (getOrderLineItems s oid)"
    unfolding getOrderLineItems_def filter_filter
    using on(1) by (intro filter_cong refl) auto
  show ?thesis
    unfolding active_items_of_def[of s2] i12
    by (subst sum_list_filter_split[where Q="\<lambda>li. li_order_id li \<noteq> oid"]) (simp only: 1 2)
qed

lemma consistent_archiveOrder:
  assumes c: "consistent s" and r: "archiveOrder s oid = Inr (out, s')"
  shows "consistent s'"
proof (cases "getOrderByOrderId s oid")
  case None
  then show ?thesis using r by (simp add: archiveOrder_def)
next
  case (Some ord)
  show ?thesis
  proof (cases "ostatus ord = Archived")
    case True
    then show ?thesis using r c Some by (simp add: archiveOrder_def)
  next
    case na: False
    note d = consistentD[OF c]
    define items where "items = getOrderLineItems s oid"
    define sf where "sf = foldl archive_item s items"
    define sp where "sp = update_orders (\<lambda>r. order_id r = oid) (\<lambda>r. r\<lparr>ostatus := Archived\<rparr>) sf"
    have s': "s' = delete_tasks (\<lambda>t. total_quantity t = 0) sp"
      using r Some na by (simp add: archiveOrder_def sp_def sf_def items_def)
    have fo: "orders sf = orders s" and fi: "order_line_items sf = order_line_items s"
      unfolding sf_def by (rule archive_fold_frame)+
    have po: "orders sp = map (\<lambda>r. if order_id r = oid then r\<lparr>ostatus := Archived\<rparr> else r) (orders s)"
      and pi: "order_line_items sp = order_line_items s" and pt: "tasks sp = tasks sf"
      by (simp_all add: sp_def fo fi)
    have act: "active sp li = (if li_order_id li = oid then False else active s li)" for li
      using active_set_status[OF po, of li] by simp
    have on: "active s li" if "li_order_id li = oid" for li
      using Some na that by (simp add: active_def)
    have sums: "sum_list (map h (active_items_of s w)) =
         sum_list (map h (active_items_of sp w)) +
         sum_list (map h (filter (\<lambda>i. li_variant_id i = w) items))" for w and h :: "line_item \<Rightarrow> int"
      unfolding items_def
      by (rule sums_toggle[where s'=sp]) (simp_all add: pi act on)
    have inn: "\<forall>i \<in> set items. 0 \<le> fulfilled_quantity i \<and> 0 \<le> quantity i"
      using d(4) d(6) by (auto simp: items_def getOrderLineItems_def)
    have p0: "0 \<le> sum_quantity sp w" "0 \<le> sum_fulfilled sp w" for w
      unfolding sum_quantity_def sum_fulfilled_def
      using d(4) d(6) by (auto intro!: sum_list_nonneg simp: active_items_of_def pi)
    have b: "\<forall>t \<in> set (tasks s).
           sum_list (map quantity (filter (\<lambda>i. li_variant_id i = variant_id t) items))
             \<le> total_quantity t \<and>
           sum_list (map fulfilled_quantity (filter (\<lambda>i. li_variant_id i = variant_id t) items))
             \<le> made_quantity t"
    proof
      fix t assume t: "t \<in> set (tasks s)"
      show "sum_list (map quantity (filter (\<lambda>i. li_variant_id i = variant_id t) items))
             \<le> total_quantity t \<and>
           sum_list (map fulfilled_quantity (filter (\<lambda>i. li_variant_id i = variant_id t) items))
             \<le> made_quantity t"
        using core_invariantD[OF d(1) t] sums[of quantity "variant_id t"]
          sums[of fulfilled_quantity "variant_id t"] p0[of "variant_id t"]
        by (simp add: sum_quantity_def sum_fulfilled_def)
    qed
    note fold = archive_fold[OF inn b, folded sf_def]
    have cp: "consistent sp"
    proof (rule consistentI)
      show "core_invariant sp"
        unfolding core_invariant_def pt
      proof
        fix t' assume "t' \<in> set (tasks sf)"
        then obtain n where n: "n < length (tasks sf)" "t' = tasks sf ! n"
          by (auto simp: in_set_conv_nth)
        have len: "length (tasks sf) = length (tasks s)"
          using fold[THEN conjunct1] by (metis length_map)
        define t where "t = tasks s ! n"
        have t: "t \<in> set (tasks s)" using n(1) len by (simp add: t_def)
        have "map variant_id (tasks sf) ! n = map variant_id (tasks s) ! n"
          using fold by simp
        then have v: "variant_id t' = variant_id t" using n len by (simp add: t_def)
        have "map total_quantity (tasks sf) ! n =
              map (\<lambda>t. total_quantity t -
                sum_list (map quantity (filter (\<lambda>i. li_variant_id i = variant_id t) items)))
                (tasks s) ! n"
          using fold by simp
        then have tot: "total_quantity t' = total_quantity t -
                sum_list (map quantity (filter (\<lambda>i. li_variant_id i = variant_id t) items))"
          using n len by (simp add: t_def)
        have "map made_quantity (tasks sf) ! n =
              map (\<lambda>t. made_quantity t -
                sum_list (map fulfilled_quantity (filter (\<lambda>i. li_variant_id i = variant_id t) items)))
                (tasks s) ! n"
          using fold by simp
        then have md: "made_quantity t' = made_quantity t -
                sum_list (map fulfilled_quantity (filter (\<lambda>i. li_variant_id i = variant_id t) items))"
          using n len by (simp add: t_def)
        show "total_quantity t' = sum_quantity sp (variant_id t') \<and>
              made_quantity t' = sum_fulfilled sp (variant_id t')"
          using core_invariantD[OF d(1) t] sums[of quantity "variant_id t"]
            sums[of fulfilled_quantity "variant_id t"]
          by (simp add: v tot md sum_quantity_def sum_fulfilled_def)
      qed
      show "distinct (map order_id (orders sp))"
        using d(2) by (simp add: po o_def if_distrib[of order_id] cong: if_cong)
      show "distinct (map line_item_id (order_line_items sp))" using d(3) by (simp add: pi)
      show "0 \<le> fulfilled_quantity li \<and> fulfilled_quantity li \<le> quantity li"
        if "li \<in> set (order_line_items sp)" for li using that d(4) by (simp add: pi)
      show "li_variant_id li \<in> variant_id ` set (tasks sp)"
        if m: "li \<in> set (order_line_items sp)" and a: "active sp li" and q: "quantity li \<noteq> 0"
        for li
      proof -
        have "active s li" using a by (simp add: act split: if_splits)
        then have "li_variant_id li \<in> variant_id ` set (tasks s)"
          using d(5)[of li] m q by (simp add: pi)
        moreover have "variant_id ` set (tasks sp) = variant_id ` set (tasks s)"
          using fold[THEN conjunct1] unfolding pt by (metis set_map)
        ultimately show ?thesis by simp
      qed
    qed
    show ?thesis unfolding s' using cp by (rule consistent_delete_zero)
  qed
qed


text \<open>Unarchiving an order.\<close>

lemma getTask_None_iff:
  "getTaskByVariantId s v = None \<longleftrightarrow> v \<notin> variant_id ` set (tasks s)"
  by (auto simp: getTaskByVariantId_def find_None_iff)

lemma unarchive_item_present:
  assumes "li_variant_id i \<in> variant_id ` set (tasks s)"
  shows "\<exists>A. tasks (unarchive_item s i) =
         map (\<lambda>t. if variant_id t = li_variant_id i then A t else t) (tasks s) \<and>
       (\<forall>t. variant_id (A t) = variant_id t \<and>
            total_quantity (A t) = total_quantity t + quantity i \<and>
            made_quantity (A t) = made_quantity t + fulfilled_quantity i)"
proof -
  obtain t0 where "getTaskByVariantId s (li_variant_id i) = Some t0"
    using assms getTask_None_iff[of s "li_variant_id i"] by (cases "getTaskByVariantId s (li_variant_id i)") auto
  then show ?thesis
    by (intro exI[where x="\<lambda>t. t\<lparr>total_quantity := total_quantity t + quantity i,
          made_quantity := made_quantity t + fulfilled_quantity i,
          status := deriveTaskStatus (made_quantity t + fulfilled_quantity i)
                      (total_quantity t + quantity i)\<rparr>"])
       (simp add: unarchive_item_def updateTaskStatus_def)
qed

lemma unarchive_item_absent:
  assumes "li_variant_id i \<notin> variant_id ` set (tasks s)"
  shows "\<exists>n. tasks (unarchive_item s i) = tasks s @ [n] \<and> variant_id n = li_variant_id i \<and>
       total_quantity n = quantity i \<and> made_quantity n = fulfilled_quantity i"
proof -
  have n: "getTaskByVariantId s (li_variant_id i) = None" using assms by (simp add: getTask_None_iff)
  have "map (\<lambda>t. if variant_id t = li_variant_id i
          then t\<lparr>status := deriveTaskStatus (made_quantity t) (total_quantity t)\<rparr> else t) (tasks s)
        = tasks s"
    using assms by (intro map_idI) force
  then show ?thesis
    by (intro exI[where x="\<lparr>variant_id = li_variant_id i, variant_title = li_variant_title i,
              product_title = li_product_title i, sku = li_sku i,
              image_url = li_image_url i, total_quantity = quantity i,
              made_quantity = fulfilled_quantity i,
              status = deriveTaskStatus (fulfilled_quantity i) (quantity i)\<rparr>"])
       (simp add: unarchive_item_def updateTaskStatus_def n)
qed

lemma unarchive_item_frame:
  "orders (unarchive_item s i) = orders s"
  "order_line_items (unarchive_item s i) = order_line_items s"
  by (simp_all add: unarchive_item_def split: option.splits)

lemma unarchive_item_variants:
  "variant_id ` set (tasks (unarchive_item s i)) = insert (li_variant_id i) (variant_id ` set (tasks s))"
proof (cases "li_variant_id i \<in> variant_id ` set (tasks s)")
  case True
  obtain A where A: "tasks (unarchive_item s i) =
         map (\<lambda>t. if variant_id t = li_variant_id i then A t else t) (tasks s)"
      "\<And>t. variant_id (A t) = variant_id t"
    using unarchive_item_present[OF True] by blast
  have "variant_id ` set (tasks (unarchive_item s i)) = variant_id ` set (tasks s)"
    unfolding A(1) set_map image_image by (rule image_cong) (auto simp: A(2))
  then show ?thesis using True by auto
next
  case False
  obtain n where "tasks (unarchive_item s i) = tasks s @ [n]" "variant_id n = li_variant_id i"
    using unarchive_item_absent[OF False] by blast
  then show ?thesis by simp
qed

lemma unarchive_fold:
  "(\<forall>t' \<in> set (tasks (foldl unarchive_item s items)).
     (\<exists>t \<in> set (tasks s). variant_id t' = variant_id t \<and>
        total_quantity t' = total_quantity t +
          sum_list (map quantity (filter (\<lambda>i. li_variant_id i = variant_id t') items)) \<and>
        made_quantity t' = made_quantity t +
          sum_list (map fulfilled_quantity (filter (\<lambda>i. li_variant_id i = variant_id t') items))) \<or>
     (variant_id t' \<notin> variant_id ` set (tasks s) \<and>
        total_quantity t' =
          sum_list (map quantity (filter (\<lambda>i. li_variant_id i = variant_id t') items)) \<and>
        made_quantity t' =
          sum_list (map fulfilled_quantity (filter (\<lambda>i. li_variant_id i = variant_id t') items)))) \<and>
   variant_id ` set (tasks (foldl unarchive_item s items)) =
     variant_id ` set (tasks s) \<union> li_variant_id ` set items"
proof (induction items arbitrary: s)
  case Nil
  show ?case by auto
next
  case (Cons i rest)
  let ?Q = "\<lambda>w. sum_list (map quantity (filter (\<lambda>i. li_variant_id i = w) rest))"
  let ?F = "\<lambda>w. sum_list (map fulfilled_quantity (filter (\<lambda>i. li_variant_id i = w) rest))"
  define s1 where "s1 = unarchive_item s i"
  define vi where "vi = li_variant_id i"
  note ih = Cons.IH[of s1]
  have vs1: "variant_id ` set (tasks s1) = insert vi (variant_id ` set (tasks s))"
    unfolding s1_def vi_def by (rule unarchive_item_variants)
  have step: "(\<exists>t \<in> set (tasks s). variant_id t1 = variant_id t \<and>
        total_quantity t1 = total_quantity t + (if variant_id t = vi then quantity i else 0) \<and>
        made_quantity t1 = made_quantity t + (if variant_id t = vi then fulfilled_quantity i else 0)) \<or>
      (vi \<notin> variant_id ` set (tasks s) \<and> variant_id t1 = vi \<and>
        total_quantity t1 = quantity i \<and> made_quantity t1 = fulfilled_quantity i)"
    if t1: "t1 \<in> set (tasks s1)" for t1
  proof (cases "vi \<in> variant_id ` set (tasks s)")
    case True
    obtain A where A: "tasks s1 = map (\<lambda>t. if variant_id t = vi then A t else t) (tasks s)"
      "\<And>t. variant_id (A t) = variant_id t"
      "\<And>t. total_quantity (A t) = total_quantity t + quantity i"
      "\<And>t. made_quantity (A t) = made_quantity t + fulfilled_quantity i"
      using unarchive_item_present[of i s] True unfolding s1_def vi_def by blast
    obtain t where t: "t \<in> set (tasks s)" "t1 = (if variant_id t = vi then A t else t)"
      using t1 by (auto simp: A(1))
    have "variant_id t1 = variant_id t \<and>
        total_quantity t1 = total_quantity t + (if variant_id t = vi then quantity i else 0) \<and>
        made_quantity t1 = made_quantity t + (if variant_id t = vi then fulfilled_quantity i else 0)"
      by (simp add: t(2) A)
    then show ?thesis using t(1) by blast
  next
    case False
    obtain n where n: "tasks s1 = tasks s @ [n]" "variant_id n = vi"
       "total_quantity n = quantity i" "made_quantity n = fulfilled_quantity i"
      using unarchive_item_absent[of i s] False unfolding s1_def vi_def by blast
    show ?thesis
    proof (cases "t1 = n")
      case True
      then show ?thesis using False n by simp
    next
      case ne: False
      then have m: "t1 \<in> set (tasks s)" using t1 by (simp add: n(1))
      then have "variant_id t1 \<noteq> vi" using False by auto
      then show ?thesis using m by auto
    qed
  qed
  have main: "(\<exists>t \<in> set (tasks s). variant_id t' = variant_id t \<and>
        total_quantity t' = total_quantity t +
          sum_list (map quantity (filter (\<lambda>j. li_variant_id j = variant_id t') (i # rest))) \<and>
        made_quantity t' = made_quantity t +
          sum_list (map fulfilled_quantity (filter (\<lambda>j. li_variant_id j = variant_id t') (i # rest)))) \<or>
     (variant_id t' \<notin> variant_id ` set (tasks s) \<and>
        total_quantity t' =
          sum_list (map quantity (filter (\<lambda>j. li_variant_id j = variant_id t') (i # rest))) \<and>
        made_quantity t' =
          sum_list (map fulfilled_quantity (filter (\<lambda>j. li_variant_id j = variant_id t') (i # rest))))"
    if t': "t' \<in> set (tasks (foldl unarchive_item s1 rest))" for t'
  proof -
    from ih t' consider
      (A) t1 where "t1 \<in> set (tasks s1)" "variant_id t' = variant_id t1"
        "total_quantity t' = total_quantity t1 + ?Q (variant_id t')"
        "made_quantity t' = made_quantity t1 + ?F (variant_id t')"
      | (B) "variant_id t' \<notin> variant_id ` set (tasks s1)"
        "total_quantity t' = ?Q (variant_id t')" "made_quantity t' = ?F (variant_id t')"
      by blast
    then show ?thesis
    proof cases
      case A
      from step[OF A(1)] show ?thesis
      proof (elim disjE bexE conjE)
        fix t assume t: "t \<in> set (tasks s)" "variant_id t1 = variant_id t"
          "total_quantity t1 = total_quantity t + (if variant_id t = vi then quantity i else 0)"
          "made_quantity t1 = made_quantity t + (if variant_id t = vi then fulfilled_quantity i else 0)"
        have "variant_id t' = variant_id t \<and>
          total_quantity t' = total_quantity t +
            sum_list (map quantity (filter (\<lambda>j. li_variant_id j = variant_id t') (i # rest))) \<and>
          made_quantity t' = made_quantity t +
            sum_list (map fulfilled_quantity (filter (\<lambda>j. li_variant_id j = variant_id t') (i # rest)))"
          using A(2,3,4) t(2,3,4) by (simp add: vi_def)
        then show ?thesis using t(1) by blast
      next
        assume n: "vi \<notin> variant_id ` set (tasks s)" "variant_id t1 = vi"
          "total_quantity t1 = quantity i" "made_quantity t1 = fulfilled_quantity i"
        have "variant_id t' \<notin> variant_id ` set (tasks s) \<and>
          total_quantity t' =
            sum_list (map quantity (filter (\<lambda>j. li_variant_id j = variant_id t') (i # rest))) \<and>
          made_quantity t' =
            sum_list (map fulfilled_quantity (filter (\<lambda>j. li_variant_id j = variant_id t') (i # rest)))"
          using A(2,3,4) n by (simp add: vi_def)
        then show ?thesis by blast
      qed
    next
      case B
      have "variant_id t' \<noteq> vi" "variant_id t' \<notin> variant_id ` set (tasks s)"
        using B(1) by (simp_all add: vs1)
      then have "variant_id t' \<notin> variant_id ` set (tasks s) \<and>
          total_quantity t' =
            sum_list (map quantity (filter (\<lambda>j. li_variant_id j = variant_id t') (i # rest))) \<and>
          made_quantity t' =
            sum_list (map fulfilled_quantity (filter (\<lambda>j. li_variant_id j = variant_id t') (i # rest)))"
        using B(2,3) by (auto simp: vi_def)
      then show ?thesis by blast
    qed
  qed
  have vars: "variant_id ` set (tasks (foldl unarchive_item s1 rest)) =
     variant_id ` set (tasks s) \<union> li_variant_id ` set (i # rest)"
    using ih vs1 by (auto simp: vi_def)
  show ?case unfolding foldl_Cons s1_def[symmetric] using main vars by blast
qed

lemma unarchive_fold_frame:
  "orders (foldl unarchive_item s items) = orders s"
  "order_line_items (foldl unarchive_item s items) = order_line_items s"
  by (rule foldl_keeps, simp add: unarchive_item_frame)+

lemma inline_not_archived: "inlineOrderStatus a b \<noteq> Archived"
  by (simp add: inlineOrderStatus_def)

lemma consistent_unarchiveOrder:
  assumes c: "consistent s" and r: "unarchiveOrder s oid = Inr (out, s')"
  shows "consistent s'"
proof (cases "getOrderByOrderId s oid")
  case None
  then show ?thesis using r by (simp add: unarchiveOrder_def)
next
  case (Some ord)
  show ?thesis
  proof (cases "ostatus ord \<noteq> Archived")
    case True
    then show ?thesis using r c Some by (simp add: unarchiveOrder_def)
  next
    case False
    then have arch: "ostatus ord = Archived" by simp
    note d = consistentD[OF c]
    define items where "items = getOrderLineItems s oid"
    define sf where "sf = foldl unarchive_item s items"
    define st where "st = inlineOrderStatus (fulfilled_items ord) (total_items ord)"
    have fo: "orders sf = orders s" and fi: "order_line_items sf = order_line_items s"
      unfolding sf_def by (rule unarchive_fold_frame)+
    have g: "getOrderByOrderId sf oid = Some ord"
      using Some by (simp add: getOrderByOrderId_def fo)
    have s': "s' = update_orders (\<lambda>r. order_id r = oid) (\<lambda>r. r\<lparr>ostatus := st\<rparr>) sf"
      using r Some arch g
      by (simp add: unarchiveOrder_def Let_def sf_def[symmetric] items_def[symmetric] st_def)
    have po: "orders s' = map (\<lambda>r. if order_id r = oid then r\<lparr>ostatus := st\<rparr> else r) (orders s)"
      and pi: "order_line_items s' = order_line_items s" and pt: "tasks s' = tasks sf"
      by (simp_all add: s' fo fi)
    have act: "active s' li = (if li_order_id li = oid then True else active s li)" for li
      using active_set_status[OF po, of li] Some by (simp add: st_def inline_not_archived)
    have off: "\<not> active s li" if "li_order_id li = oid" for li
      using Some arch that by (simp add: active_def)
    have sums: "sum_list (map h (active_items_of s' w)) =
         sum_list (map h (active_items_of s w)) +
         sum_list (map h (filter (\<lambda>i. li_variant_id i = w) items))" for w and h :: "line_item \<Rightarrow> int"
      unfolding items_def
      by (rule sums_toggle[where s'=s']) (simp_all add: pi act off)
    note fold = unarchive_fold[of s items, folded sf_def]
    have zero: "sum_quantity s w = 0 \<and> sum_fulfilled s w = 0"
      if w: "w \<notin> variant_id ` set (tasks s)" for w
    proof -
      have q: "quantity li = 0 \<and> fulfilled_quantity li = 0" if "li \<in> set (active_items_of s w)" for li
      proof -
        have m: "li \<in> set (order_line_items s)" "active s li" "li_variant_id li = w"
          using that by (simp_all add: active_items_of_def)
        have "quantity li = 0" using d(5)[OF m(1,2)] w m(3) by auto
        then show ?thesis using d(4)[OF m(1)] by simp
      qed
      have e: "map quantity (active_items_of s w) = map (\<lambda>li. 0) (active_items_of s w)"
        "map fulfilled_quantity (active_items_of s w) = map (\<lambda>li. 0) (active_items_of s w)"
        using q by (simp_all cong: map_cong)
      show ?thesis unfolding sum_quantity_def sum_fulfilled_def e by simp
    qed
    show ?thesis
    proof (rule consistentI)
      show "core_invariant s'"
        unfolding core_invariant_def pt
      proof
        fix t' assume "t' \<in> set (tasks sf)"
        with fold consider
          (A) t where "t \<in> set (tasks s)" "variant_id t' = variant_id t"
            "total_quantity t' = total_quantity t +
              sum_list (map quantity (filter (\<lambda>i. li_variant_id i = variant_id t') items))"
            "made_quantity t' = made_quantity t +
              sum_list (map fulfilled_quantity (filter (\<lambda>i. li_variant_id i = variant_id t') items))"
          | (B) "variant_id t' \<notin> variant_id ` set (tasks s)"
            "total_quantity t' =
              sum_list (map quantity (filter (\<lambda>i. li_variant_id i = variant_id t') items))"
            "made_quantity t' =
              sum_list (map fulfilled_quantity (filter (\<lambda>i. li_variant_id i = variant_id t') items))"
          by blast
        then show "total_quantity t' = sum_quantity s' (variant_id t') \<and>
              made_quantity t' = sum_fulfilled s' (variant_id t')"
        proof cases
          case A
          show ?thesis
            using core_invariantD[OF d(1) A(1)] sums[of quantity "variant_id t'"]
              sums[of fulfilled_quantity "variant_id t'"] A(2,3,4)
            by (simp add: sum_quantity_def sum_fulfilled_def)
        next
          case B
          show ?thesis
            using zero[OF B(1)] sums[of quantity "variant_id t'"]
              sums[of fulfilled_quantity "variant_id t'"] B(2,3)
            by (simp add: sum_quantity_def sum_fulfilled_def)
        qed
      qed
      show "distinct (map order_id (orders s'))"
        using d(2) by (simp add: po o_def if_distrib[of order_id] cong: if_cong)
      show "distinct (map line_item_id (order_line_items s'))" using d(3) by (simp add: pi)
      show "0 \<le> fulfilled_quantity li \<and> fulfilled_quantity li \<le> quantity li"
        if "li \<in> set (order_line_items s')" for li using that d(4) by (simp add: pi)
      show "li_variant_id li \<in> variant_id ` set (tasks s')"
        if m: "li \<in> set (order_line_items s')" and a: "active s' li" and q: "quantity li \<noteq> 0"
        for li
      proof (cases "li_order_id li = oid")
        case True
        then have "li \<in> set items" using m by (simp add: items_def getOrderLineItems_def pi)
        then show ?thesis using fold unfolding pt by blast
      next
        case False
        then have "active s li" using a by (simp add: act)
        then have "li_variant_id li \<in> variant_id ` set (tasks s)"
          using d(5)[of li] m q by (simp add: pi)
        then show ?thesis using fold unfolding pt by blast
      qed
    qed
  qed
qed


text \<open>Reconciliation without a skipped order.\<close>

lemma tasks_store_order: "tasks (store_order skip s e) = tasks s"
  by (simp add: store_order_def foldl_upsertOrderLineItem_keeps upsertOrder_frame)

lemma foldl_upsertTask_others:
  "filter (\<lambda>t. variant_id t \<notin> variant_id ` set xs) (tasks (foldl upsertTask s xs)) =
   filter (\<lambda>t. variant_id t \<notin> variant_id ` set xs) (tasks s)"
proof (induction xs arbitrary: s)
  case Nil
  show ?case by simp
next
  case (Cons x xs)
  have "filter (\<lambda>t. variant_id t \<notin> variant_id ` set (x # xs)) (tasks (foldl upsertTask s (x # xs))) =
        filter (\<lambda>t. variant_id t \<noteq> variant_id x)
          (filter (\<lambda>t. variant_id t \<notin> variant_id ` set xs) (tasks (foldl upsertTask (upsertTask s x) xs)))"
    by (simp add: conj_commute)
  also have "\<dots> = filter (\<lambda>t. variant_id t \<notin> variant_id ` set xs)
          (filter (\<lambda>t. variant_id t \<noteq> variant_id x) (tasks (upsertTask s x)))"
    unfolding Cons.IH by (simp add: conj_commute)
  also have "\<dots> = filter (\<lambda>t. variant_id t \<notin> variant_id ` set (x # xs)) (tasks s)"
    unfolding upsertTask_frame by (simp add: conj_commute)
  finally show ?case .
qed

lemma sync_no_skip_tasks:
  assumes "getOrderIdsToSkipDuringSync s = []"
  shows "filter (\<lambda>t. variant_id t \<notin> variant_id ` set aggregated)
           (tasks (sync_shopify s aggregated fetched)) =
         filter (\<lambda>t. variant_id t \<notin> variant_id ` set aggregated) (tasks s)"
proof -
  have "tasks (foldl (store_order []) (snd (clearOrdersWithoutProgress s)) fetched) = tasks s"
    using foldl_keeps[of tasks "store_order []" "snd (clearOrdersWithoutProgress s)" fetched]
    by (simp add: tasks_store_order clear_tables)
  then show ?thesis
    using assms foldl_upsertTask_others[of aggregated
        "foldl (store_order []) (snd (clearOrdersWithoutProgress s)) fetched"]
    by (simp add: sync_shopify_def Let_def items_updateAllOrderStatuses)
qed

text \<open>
  C1. Call a database consistent when every task row has as total and made the sums of
  \<open>quantity\<close> and \<open>fulfilled_quantity\<close> over the line items of its variant in non-archived
  orders, order ids and line-item ids are unique, every line item has
  \<open>0 \<le> fulfilled_quantity \<le> quantity\<close>, and every line item of a non-archived order with a
  non-zero quantity has a task for its variant. From a consistent database, the handlers
  mark-made (record of production, then allocation of the same quantity), mark-complete,
  reset-task, archive-order and unarchive-order and \<^verbatim>\<open>recalculateTaskTotalsFromOrders\<close> all end
  in a consistent database. The sync handler ends with the equality of the invariant, from
  any database, when its skip set is not empty, which is when it recalculates; when the skip
  set is empty it leaves the task rows of the variants that are not in the fetch as they
  were.
\<close>

theorem core_invariant_reestablished:
  assumes "consistent s"
  shows "consistent (snd (mark_made s v qty)) \<and>
    consistent (snd (mark_complete s v)) \<and>
    consistent (snd (reset_task s v)) \<and>
    consistent (snd (archive_order s oid)) \<and>
    consistent (snd (unarchive_order s oid)) \<and>
    consistent (recalculateTaskTotalsFromOrders s) \<and>
    (getOrderIdsToSkipDuringSync s \<noteq> [] \<longrightarrow>
       core_invariant (sync_shopify s aggregated fetched)) \<and>
    (getOrderIdsToSkipDuringSync s = [] \<longrightarrow>
       filter (\<lambda>t. variant_id t \<notin> variant_id ` set aggregated)
           (tasks (sync_shopify s aggregated fetched)) =
       filter (\<lambda>t. variant_id t \<notin> variant_id ` set aggregated) (tasks s))"
proof (intro conjI impI)
  show "consistent (snd (mark_made s v qty))" using assms by (rule consistent_mark_made)
  show "consistent (snd (mark_complete s v))" using assms by (rule consistent_mark_complete)
  show "consistent (snd (reset_task s v))"
    using assms consistent_reset[OF assms, of v] by (simp add: reset_task_def)
  show "consistent (snd (archive_order s oid))"
  proof (cases "archiveOrder s oid")
    case (Inl e)
    then show ?thesis using assms by (simp add: archive_order_def)
  next
    case (Inr p)
    then have "archiveOrder s oid = Inr (fst p, snd p)" by simp
    from consistent_archiveOrder[OF assms this] show ?thesis
      using assms Inr by (simp add: archive_order_def split_beta)
  qed
  show "consistent (snd (unarchive_order s oid))"
  proof (cases "unarchiveOrder s oid")
    case (Inl e)
    then show ?thesis using assms by (simp add: unarchive_order_def)
  next
    case (Inr p)
    then have "unarchiveOrder s oid = Inr (fst p, snd p)" by simp
    from consistent_unarchiveOrder[OF assms this] show ?thesis
      using assms Inr by (simp add: unarchive_order_def split_beta)
  qed
  show "consistent (recalculateTaskTotalsFromOrders s)" using assms by (rule consistent_recalculate)
  show "core_invariant (sync_shopify s aggregated fetched)"
    if "getOrderIdsToSkipDuringSync s \<noteq> []" using that by (rule core_invariant_sync)
  show "filter (\<lambda>t. variant_id t \<notin> variant_id ` set aggregated)
           (tasks (sync_shopify s aggregated fetched)) =
       filter (\<lambda>t. variant_id t \<notin> variant_id ` set aggregated) (tasks s)"
    if "getOrderIdsToSkipDuringSync s = []" using that by (rule sync_no_skip_tasks)
qed

lemma ex_progress_facts:
  "consistent ex_db_progress"
  "getOrderIdsToSkipDuringSync ex_db_progress \<noteq> []"
  by (simp_all add: consistent_def core_invariant_def sum_quantity_def sum_fulfilled_def
      active_items_of_def active_def getOrderByOrderId_def ex_db_progress_def ex_task_def
      ex_line_jan01_def ex_line_jan10_def ex_order_jan01_def ex_order_jan10_def
      getOrderIdsToSkipDuringSync_def)

theorem core_invariant_reestablished_witness:
  "consistent ex_db_progress \<and>
   consistent (snd (mark_made ex_db_progress ''variant-1'' 2)) \<and>
   consistent (snd (mark_complete ex_db_progress ''variant-1'')) \<and>
   consistent (snd (reset_task ex_db_progress ''variant-1'')) \<and>
   consistent (snd (archive_order ex_db_progress ''order-a'')) \<and>
   consistent (snd (unarchive_order ex_db_progress ''order-a'')) \<and>
   consistent (recalculateTaskTotalsFromOrders ex_db_progress) \<and>
   getOrderIdsToSkipDuringSync ex_db_progress \<noteq> [] \<and>
   core_invariant (sync_shopify ex_db_progress [] [])"
  using core_invariant_reestablished[OF ex_progress_facts(1),
      of "''variant-1''" 2 "''order-a''" "[]" "[]"] ex_progress_facts
  by blast

subsection \<open>Reconciliation: what a sync keeps and what it replaces\<close>

lemma upsertOrder_lookup_other:
  assumes "order_id x \<noteq> oid"
  shows "getOrderByOrderId (upsertOrder s x) oid = getOrderByOrderId s oid"
proof (cases "getOrderByOrderId s (order_id x)")
  case None
  show ?thesis unfolding getOrderByOrderId_def upsertOrder_orders(2)[OF None, THEN conjunct1]
    using assms by (simp add: find_snoc split: option.splits)
next
  case (Some r)
  have "find (\<lambda>r. order_id r = oid)
          (map (\<lambda>r. if order_id r = order_id x
             then r\<lparr>order_name := order_name x, order_date := order_date x,
                    total_items := total_items x\<rparr> else r) xs) =
        find (\<lambda>r. order_id r = oid) xs" for xs
    using assms by (induction xs) auto
  then show ?thesis
    unfolding getOrderByOrderId_def upsertOrder_orders(1)[OF Some, THEN conjunct1] .
qed

lemma store_order_lookup_other:
  assumes "order_id (fst x) \<noteq> oid"
  shows "getOrderByOrderId (store_order skip s x) oid = getOrderByOrderId s oid"
proof -
  have "getOrderByOrderId (foldl upsertOrderLineItem (upsertOrder s (fst x)) (snd x)) oid =
        getOrderByOrderId (upsertOrder s (fst x)) oid"
    by (simp add: getOrderByOrderId_def foldl_upsertOrderLineItem_keeps)
  then show ?thesis using assms by (simp add: store_order_def upsertOrder_lookup_other)
qed

lemma foldl_store_order_lookup_other:
  "\<forall>x \<in> set xs. order_id (fst x) \<noteq> oid \<Longrightarrow>
   getOrderByOrderId (foldl (store_order skip) s xs) oid = getOrderByOrderId s oid"
  by (induction xs arbitrary: s) (simp_all add: store_order_lookup_other)

lemma foldl_preserves:
  "(\<And>s x. P s \<Longrightarrow> P (f s x)) \<Longrightarrow> P s \<Longrightarrow> P (foldl f s xs)"
  by (induction xs arbitrary: s) simp_all

lemma upsertOrderLineItem_no_progress:
  assumes "\<forall>li \<in> set (order_line_items s). li_order_id li = oid \<longrightarrow> fulfilled_quantity li = 0"
  shows "\<forall>li \<in> set (order_line_items (upsertOrderLineItem s z)).
           li_order_id li = oid \<longrightarrow> fulfilled_quantity li = 0"
proof (cases "find (\<lambda>li. line_item_id li = line_item_id z) (order_line_items s)")
  case None
  show ?thesis unfolding upsertOrderLineItem_items(2)[OF None, THEN conjunct1]
    using assms by simp
next
  case (Some l)
  show ?thesis unfolding upsertOrderLineItem_items(1)[OF Some, THEN conjunct1]
    using assms by auto
qed

lemma store_order_no_progress:
  assumes "\<forall>li \<in> set (order_line_items s). li_order_id li = oid \<longrightarrow> fulfilled_quantity li = 0"
  shows "\<forall>li \<in> set (order_line_items (store_order skip s x)).
           li_order_id li = oid \<longrightarrow> fulfilled_quantity li = 0"
proof -
  have "\<forall>li \<in> set (order_line_items (foldl upsertOrderLineItem s' zs)).
           li_order_id li = oid \<longrightarrow> fulfilled_quantity li = 0"
    if "\<forall>li \<in> set (order_line_items s'). li_order_id li = oid \<longrightarrow> fulfilled_quantity li = 0"
    for s' zs
    using _ that by (rule foldl_preserves) (rule upsertOrderLineItem_no_progress)
  from this[of "upsertOrder s (fst x)" "snd x"] assms
  show ?thesis by (simp add: store_order_def upsertOrder_frame)
qed

lemma foldl_store_order_no_progress:
  "\<forall>li \<in> set (order_line_items s). li_order_id li = oid \<longrightarrow> fulfilled_quantity li = 0 \<Longrightarrow>
   \<forall>li \<in> set (order_line_items (foldl (store_order skip) s xs)).
      li_order_id li = oid \<longrightarrow> fulfilled_quantity li = 0"
  by (rule foldl_preserves) (rule store_order_no_progress)

lemma lookup_updateAllOrderStatuses:
  "getOrderByOrderId (updateAllOrderStatuses s) oid =
     map_option (\<lambda>r. if ostatus r \<noteq> Archived
           then r\<lparr>fulfilled_items := order_fulfilled_sum s (order_id r),
                  ostatus := deriveOrderStatus (order_fulfilled_sum s (order_id r)) (total_items r)\<rparr>
           else r) (getOrderByOrderId s oid)"
  by (rule getOrder_map[OF updateAllOrderStatuses_orders]) simp

lemma sync_lookup:
  "getOrderByOrderId (sync_shopify s aggregated fetched) oid =
   getOrderByOrderId (updateAllOrderStatuses
       (foldl (store_order (getOrderIdsToSkipDuringSync s))
          (snd (clearOrdersWithoutProgress s)) fetched)) oid"
  by (simp add: getOrderByOrderId_def sync_orders)

lemma sync_removes:
  assumes "distinct (map order_id (orders s))" and "r \<in> set (orders s)"
    and "ostatus r \<noteq> Archived" and "fulfilled_items r = 0"
    and "\<forall>x \<in> set fetched. order_id (fst x) \<noteq> order_id r"
  shows "getOrderByOrderId (sync_shopify s aggregated fetched) (order_id r) = None"
  unfolding sync_lookup lookup_updateAllOrderStatuses
  using foldl_store_order_lookup_other[OF assms(5)] clear_removes_order(1)[OF assms(1-4)]
  by simp

lemma sync_replaces:
  assumes "distinct (map order_id (orders s))" and "r \<in> set (orders s)"
    and "ostatus r \<noteq> Archived" and "fulfilled_items r = 0"
    and "distinct (map (\<lambda>x. order_id (fst x)) fetched)"
    and "x \<in> set fetched" and "order_id (fst x) = order_id r"
  shows "getOrderByOrderId (sync_shopify s aggregated fetched) (order_id r) =
           Some \<lparr>order_id = order_id r, order_name = order_name (fst x),
             order_date = order_date (fst x), total_items = total_items (fst x),
             fulfilled_items = 0, ostatus = OPending\<rparr>"
    and "\<forall>li \<in> set (getOrderLineItems (sync_shopify s aggregated fetched) (order_id r)).
           fulfilled_quantity li = 0"
proof -
  let ?skip = "getOrderIdsToSkipDuringSync s"
  let ?s1 = "snd (clearOrdersWithoutProgress s)"
  let ?s2 = "foldl (store_order ?skip) ?s1 fetched"
  define oid where "oid = order_id r"
  note cl = clear_removes_order[OF assms(1-4), folded oid_def]
  obtain pre post where sp: "fetched = pre @ x # post"
    using assms(6) by (auto simp: in_set_conv_decomp)
  have nx: "order_id (fst x) \<notin> (\<lambda>y. order_id (fst y)) ` set pre"
    "order_id (fst x) \<notin> (\<lambda>y. order_id (fst y)) ` set post"
    using assms(5) unfolding sp by simp_all
  have ne: "\<forall>y \<in> set pre. order_id (fst y) \<noteq> oid" "\<forall>y \<in> set post. order_id (fst y) \<noteq> oid"
    unfolding oid_def assms(7)[symmetric] using nx by (metis imageI)+
  have 1: "getOrderByOrderId (foldl (store_order ?skip) ?s1 pre) oid = None"
    using foldl_store_order_lookup_other[OF ne(1)] cl(1) by simp
  have xs: "order_id (fst x) \<notin> set ?skip" using cl(2) assms(7) by (simp add: oid_def)
  have 2: "getOrderByOrderId (store_order ?skip (foldl (store_order ?skip) ?s1 pre) x) oid =
           Some \<lparr>order_id = oid, order_name = order_name (fst x),
             order_date = order_date (fst x), total_items = total_items (fst x),
             fulfilled_items = 0, ostatus = OPending\<rparr>"
    using store_order_inserts[OF xs, of "foldl (store_order ?skip) ?s1 pre"] 1 assms(7)
    by (simp add: oid_def)
  have 3: "getOrderByOrderId ?s2 oid =
           Some \<lparr>order_id = oid, order_name = order_name (fst x),
             order_date = order_date (fst x), total_items = total_items (fst x),
             fulfilled_items = 0, ostatus = OPending\<rparr>"
    unfolding sp foldl_append foldl_Cons
    using foldl_store_order_lookup_other[OF ne(2)] 2 by simp
  have z1: "\<forall>li \<in> set (order_line_items ?s1). li_order_id li = oid \<longrightarrow> fulfilled_quantity li = 0"
    unfolding clear_tables using assms(2,3,4) by (auto simp: oid_def)
  have z2: "\<forall>li \<in> set (order_line_items ?s2). li_order_id li = oid \<longrightarrow> fulfilled_quantity li = 0"
    using z1 by (rule foldl_store_order_no_progress)
  have e: "map fulfilled_quantity (getOrderLineItems ?s2 oid) =
        map (\<lambda>li. 0) (getOrderLineItems ?s2 oid)"
    using z2 by (intro map_cong refl) (simp add: getOrderLineItems_def)
  have 4: "order_fulfilled_sum ?s2 oid = 0"
    unfolding order_fulfilled_sum_def e by simp
  show "getOrderByOrderId (sync_shopify s aggregated fetched) (order_id r) =
           Some \<lparr>order_id = order_id r, order_name = order_name (fst x),
             order_date = order_date (fst x), total_items = total_items (fst x),
             fulfilled_items = 0, ostatus = OPending\<rparr>"
    unfolding sync_lookup lookup_updateAllOrderStatuses oid_def[symmetric] 3
    by (simp add: 4 deriveOrderStatus_def)
  show "\<forall>li \<in> set (getOrderLineItems (sync_shopify s aggregated fetched) (order_id r)).
           fulfilled_quantity li = 0"
    using z2 by (simp add: getOrderLineItems_def sync_line_items oid_def)
qed


lemma sync_keeps_agreeing_row:
  assumes "distinct (map order_id (orders s))"
    and "\<forall>x \<in> set fetched. \<forall>li \<in> set (snd x). li_order_id li = order_id (fst x)"
    and "r \<in> set (orders s)" and "fulfilled_items r > 0" and "ostatus r \<noteq> Archived"
    and "fulfilled_items r = order_fulfilled_sum s (order_id r)"
    and "ostatus r = deriveOrderStatus (fulfilled_items r) (total_items r)"
  shows "r \<in> set (orders (sync_shopify s aggregated fetched))"
proof -
  have "r\<lparr>fulfilled_items := order_fulfilled_sum s (order_id r),
           ostatus := deriveOrderStatus (order_fulfilled_sum s (order_id r)) (total_items r)\<rparr> = r"
    using assms(6,7) by simp
  then show ?thesis using sync_keeps_progress_row(1)[OF assms(1-5), of aggregated] by simp
qed

text \<open>
  C6. The skip set is the set of ids of the archived orders and of the orders with
  \<open>fulfilled_items > 0\<close>. The safe clear removes the non-archived orders with
  \<open>fulfilled_items = 0\<close>, the line items carrying the id of such an order, and nothing
  else. Whatever the sync has fetched, also an order of the same id: an archived order is
  still there, unchanged, after the sync; an order with progress is still there with its
  name, date and total, and (order ids being unique, fetched line items carrying the id of
  their order) the progress of its line items is what it was and its row is what it was
  except that the sync writes into \<open>fulfilled_items\<close> and status what it recomputes from
  these line items: the row is unchanged exactly when its counter and status agreed with
  them. A non-archived order without progress is removed by the clear and is not in the
  skip set; after the sync it is gone when the fetch has no order of its id, and when the
  fetch (of unique order ids) has one, the order found under this id is a new row with the
  fetched name, date and total, no fulfilled item and status pending, and none of its line
  items has progress.
\<close>

theorem reconciliation_preserves_progress:
  "set (getOrderIdsToSkipDuringSync s) =
     order_id ` {r \<in> set (orders s). ostatus r = Archived} \<union>
     order_id ` {r \<in> set (orders s). fulfilled_items r > 0} \<and>
   orders (snd (clearOrdersWithoutProgress s)) =
     filter (\<lambda>r. \<not> (ostatus r \<noteq> Archived \<and> fulfilled_items r = 0)) (orders s) \<and>
   order_line_items (snd (clearOrdersWithoutProgress s)) =
     filter (\<lambda>li. li_order_id li \<notin>
               order_id ` {r \<in> set (orders s). ostatus r \<noteq> Archived \<and> fulfilled_items r = 0})
       (order_line_items s) \<and>
   tasks (snd (clearOrdersWithoutProgress s)) = tasks s \<and>
   (\<forall>r \<in> set (orders s). ostatus r = Archived \<or> fulfilled_items r > 0 \<longrightarrow>
      (ostatus r = Archived \<longrightarrow> r \<in> set (orders (sync_shopify s aggregated fetched))) \<and>
      (\<exists>r' \<in> set (orders (sync_shopify s aggregated fetched)).
         order_id r' = order_id r \<and> order_name r' = order_name r \<and>
         order_date r' = order_date r \<and> total_items r' = total_items r)) \<and>
   (distinct (map order_id (orders s)) \<and>
    (\<forall>x \<in> set fetched. \<forall>li \<in> set (snd x). li_order_id li = order_id (fst x)) \<longrightarrow>
      (\<forall>r \<in> set (orders s). fulfilled_items r > 0 \<and> ostatus r \<noteq> Archived \<longrightarrow>
         r\<lparr>fulfilled_items := order_fulfilled_sum s (order_id r),
           ostatus := deriveOrderStatus (order_fulfilled_sum s (order_id r)) (total_items r)\<rparr>
           \<in> set (orders (sync_shopify s aggregated fetched)) \<and>
         map fulfilled_quantity
           (getOrderLineItems (sync_shopify s aggregated fetched) (order_id r)) =
         map fulfilled_quantity (getOrderLineItems s (order_id r)) \<and>
         (fulfilled_items r = order_fulfilled_sum s (order_id r) \<and>
          ostatus r = deriveOrderStatus (fulfilled_items r) (total_items r) \<longrightarrow>
            r \<in> set (orders (sync_shopify s aggregated fetched))))) \<and>
   (distinct (map order_id (orders s)) \<longrightarrow>
      (\<forall>r \<in> set (orders s). ostatus r \<noteq> Archived \<and> fulfilled_items r = 0 \<longrightarrow>
         getOrderByOrderId (snd (clearOrdersWithoutProgress s)) (order_id r) = None \<and>
         order_id r \<notin> set (getOrderIdsToSkipDuringSync s) \<and>
         ((\<forall>x \<in> set fetched. order_id (fst x) \<noteq> order_id r) \<longrightarrow>
            getOrderByOrderId (sync_shopify s aggregated fetched) (order_id r) = None) \<and>
         (distinct (map (\<lambda>x. order_id (fst x)) fetched) \<longrightarrow>
            (\<forall>x \<in> set fetched. order_id (fst x) = order_id r \<longrightarrow>
               getOrderByOrderId (sync_shopify s aggregated fetched) (order_id r) =
                 Some \<lparr>order_id = order_id r, order_name = order_name (fst x),
                   order_date = order_date (fst x), total_items = total_items (fst x),
                   fulfilled_items = 0, ostatus = OPending\<rparr> \<and>
               (\<forall>li \<in> set (getOrderLineItems (sync_shopify s aggregated fetched) (order_id r)).
                  fulfilled_quantity li = 0))))) \<and>
   (order_id (fst x) \<notin> set skip \<and> getOrderByOrderId s' (order_id (fst x)) = None \<longrightarrow>
      getOrderByOrderId (store_order skip s' x) (order_id (fst x)) =
        Some \<lparr>order_id = order_id (fst x), order_name = order_name (fst x),
          order_date = order_date (fst x), total_items = total_items (fst x),
          fulfilled_items = 0, ostatus = OPending\<rparr>)"
proof (intro conjI)
  show "set (getOrderIdsToSkipDuringSync s) =
     order_id ` {r \<in> set (orders s). ostatus r = Archived} \<union>
     order_id ` {r \<in> set (orders s). fulfilled_items r > 0}"
    by (rule skip_set)
  show "orders (snd (clearOrdersWithoutProgress s)) =
     filter (\<lambda>r. \<not> (ostatus r \<noteq> Archived \<and> fulfilled_items r = 0)) (orders s)"
    by (rule clear_tables)
  show "order_line_items (snd (clearOrdersWithoutProgress s)) =
     filter (\<lambda>li. li_order_id li \<notin>
               order_id ` {r \<in> set (orders s). ostatus r \<noteq> Archived \<and> fulfilled_items r = 0})
       (order_line_items s)"
    by (rule clear_tables)
  show "tasks (snd (clearOrdersWithoutProgress s)) = tasks s"
    by (rule clear_tables)
  show "\<forall>r \<in> set (orders s). ostatus r = Archived \<or> fulfilled_items r > 0 \<longrightarrow>
      (ostatus r = Archived \<longrightarrow> r \<in> set (orders (sync_shopify s aggregated fetched))) \<and>
      (\<exists>r' \<in> set (orders (sync_shopify s aggregated fetched)).
         order_id r' = order_id r \<and> order_name r' = order_name r \<and>
         order_date r' = order_date r \<and> total_items r' = total_items r)"
    using sync_keeps_order[of _ s aggregated fetched] by blast
  show "distinct (map order_id (orders s)) \<and>
    (\<forall>x \<in> set fetched. \<forall>li \<in> set (snd x). li_order_id li = order_id (fst x)) \<longrightarrow>
      (\<forall>r \<in> set (orders s). fulfilled_items r > 0 \<and> ostatus r \<noteq> Archived \<longrightarrow>
         r\<lparr>fulfilled_items := order_fulfilled_sum s (order_id r),
           ostatus := deriveOrderStatus (order_fulfilled_sum s (order_id r)) (total_items r)\<rparr>
           \<in> set (orders (sync_shopify s aggregated fetched)) \<and>
         map fulfilled_quantity
           (getOrderLineItems (sync_shopify s aggregated fetched) (order_id r)) =
         map fulfilled_quantity (getOrderLineItems s (order_id r)) \<and>
         (fulfilled_items r = order_fulfilled_sum s (order_id r) \<and>
          ostatus r = deriveOrderStatus (fulfilled_items r) (total_items r) \<longrightarrow>
            r \<in> set (orders (sync_shopify s aggregated fetched))))"
    using sync_keeps_progress_row[of s fetched _ aggregated]
      sync_keeps_agreeing_row[of s fetched _ aggregated] by blast
  show "distinct (map order_id (orders s)) \<longrightarrow>
      (\<forall>r \<in> set (orders s). ostatus r \<noteq> Archived \<and> fulfilled_items r = 0 \<longrightarrow>
         getOrderByOrderId (snd (clearOrdersWithoutProgress s)) (order_id r) = None \<and>
         order_id r \<notin> set (getOrderIdsToSkipDuringSync s) \<and>
         ((\<forall>x \<in> set fetched. order_id (fst x) \<noteq> order_id r) \<longrightarrow>
            getOrderByOrderId (sync_shopify s aggregated fetched) (order_id r) = None) \<and>
         (distinct (map (\<lambda>x. order_id (fst x)) fetched) \<longrightarrow>
            (\<forall>x \<in> set fetched. order_id (fst x) = order_id r \<longrightarrow>
               getOrderByOrderId (sync_shopify s aggregated fetched) (order_id r) =
                 Some \<lparr>order_id = order_id r, order_name = order_name (fst x),
                   order_date = order_date (fst x), total_items = total_items (fst x),
                   fulfilled_items = 0, ostatus = OPending\<rparr> \<and>
               (\<forall>li \<in> set (getOrderLineItems (sync_shopify s aggregated fetched) (order_id r)).
                  fulfilled_quantity li = 0))))"
  proof (intro impI ballI)
    fix r
    assume d: "distinct (map order_id (orders s))" and r: "r \<in> set (orders s)"
      and z: "ostatus r \<noteq> Archived \<and> fulfilled_items r = 0"
    have z1: "ostatus r \<noteq> Archived" and z2: "fulfilled_items r = 0" using z by simp_all
    note 1 = clear_removes_order[OF d r z1 z2]
    have 2: "getOrderByOrderId (sync_shopify s aggregated fetched) (order_id r) = None"
      if "\<forall>x \<in> set fetched. order_id (fst x) \<noteq> order_id r"
      using d r z1 z2 that by (rule sync_removes)
    have 3: "getOrderByOrderId (sync_shopify s aggregated fetched) (order_id r) =
                 Some \<lparr>order_id = order_id r, order_name = order_name (fst y),
                   order_date = order_date (fst y), total_items = total_items (fst y),
                   fulfilled_items = 0, ostatus = OPending\<rparr> \<and>
               (\<forall>li \<in> set (getOrderLineItems (sync_shopify s aggregated fetched) (order_id r)).
                  fulfilled_quantity li = 0)"
      if "distinct (map (\<lambda>x. order_id (fst x)) fetched)" "y \<in> set fetched"
        "order_id (fst y) = order_id r" for y
      using sync_replaces[OF d r z1 z2 that, of aggregated] by (rule conjI)
    show "getOrderByOrderId (snd (clearOrdersWithoutProgress s)) (order_id r) = None \<and>
         order_id r \<notin> set (getOrderIdsToSkipDuringSync s) \<and>
         ((\<forall>x \<in> set fetched. order_id (fst x) \<noteq> order_id r) \<longrightarrow>
            getOrderByOrderId (sync_shopify s aggregated fetched) (order_id r) = None) \<and>
         (distinct (map (\<lambda>x. order_id (fst x)) fetched) \<longrightarrow>
            (\<forall>x \<in> set fetched. order_id (fst x) = order_id r \<longrightarrow>
               getOrderByOrderId (sync_shopify s aggregated fetched) (order_id r) =
                 Some \<lparr>order_id = order_id r, order_name = order_name (fst x),
                   order_date = order_date (fst x), total_items = total_items (fst x),
                   fulfilled_items = 0, ostatus = OPending\<rparr> \<and>
               (\<forall>li \<in> set (getOrderLineItems (sync_shopify s aggregated fetched) (order_id r)).
                  fulfilled_quantity li = 0)))"
      using 1 2 3 by blast
  qed
  show "order_id (fst x) \<notin> set skip \<and> getOrderByOrderId s' (order_id (fst x)) = None \<longrightarrow>
      getOrderByOrderId (store_order skip s' x) (order_id (fst x)) =
        Some \<lparr>order_id = order_id (fst x), order_name = order_name (fst x),
          order_date = order_date (fst x), total_items = total_items (fst x),
          fulfilled_items = 0, ostatus = OPending\<rparr>"
    using store_order_inserts[of x skip s'] by blast
qed

lemma ex_sync_facts:
  "distinct (map order_id (orders ex_db_sync))"
  "\<forall>x \<in> set ex_fetched. \<forall>li \<in> set (snd x). li_order_id li = order_id (fst x)"
  "ex_order \<in> set (orders ex_db_sync)" "fulfilled_items ex_order = 3"
  "ostatus ex_order \<noteq> Archived" "order_id ex_order = ''order-1''"
  "order_fulfilled_sum ex_db_sync ''order-1'' = 3"
  "deriveOrderStatus 3 (total_items ex_order) = ostatus ex_order"
  "ex_order2 \<in> set (orders ex_db_sync)" "fulfilled_items ex_order2 = 0"
  "ostatus ex_order2 \<noteq> Archived" "order_id ex_order2 = ''order-2''"
  "ex_order\<lparr>fulfilled_items := 3, ostatus := ostatus ex_order\<rparr> = ex_order"
  "distinct (map (\<lambda>x. order_id (fst x)) ex_fetched)"
  "(ex_order2\<lparr>order_name := ''#1002-new'', total_items := 4\<rparr>, [ex_line2\<lparr>quantity := 4\<rparr>])
     \<in> set ex_fetched"
  "order_id (fst (ex_order2\<lparr>order_name := ''#1002-new'', total_items := 4\<rparr>,
     [ex_line2\<lparr>quantity := 4\<rparr>])) = order_id ex_order2"
  by (simp_all add: ex_db_sync_def ex_fetched_def ex_order_def ex_order2_def ex_line_def
      ex_line2_def order_fulfilled_sum_def getOrderLineItems_def deriveOrderStatus_def)

theorem reconciliation_preserves_progress_witness:
  "distinct (map order_id (orders ex_db_sync)) \<and>
   ex_order \<in> set (orders ex_db_sync) \<and> fulfilled_items ex_order = 3 \<and>
   ex_order \<in> set (orders (sync_shopify ex_db_sync [] ex_fetched)) \<and>
   ex_order2 \<in> set (orders ex_db_sync) \<and> fulfilled_items ex_order2 = 0 \<and>
   getOrderByOrderId (snd (clearOrdersWithoutProgress ex_db_sync)) ''order-2'' = None \<and>
   ''order-2'' \<notin> set (getOrderIdsToSkipDuringSync ex_db_sync) \<and>
   getOrderByOrderId (sync_shopify ex_db_sync [] ex_fetched) ''order-2'' =
     Some \<lparr>order_id = ''order-2'', order_name = ''#1002-new'',
       order_date = ''2025-01-11T10:00:00Z'', total_items = 4,
       fulfilled_items = 0, ostatus = OPending\<rparr> \<and>
   getOrderByOrderId (sync_shopify ex_db_sync [] []) ''order-2'' = None"
proof -
  note f = ex_sync_facts
  from reconciliation_preserves_progress[of ex_db_sync "[]" ex_fetched] f(1,2,3,4,5)
  have "ex_order\<lparr>fulfilled_items := order_fulfilled_sum ex_db_sync (order_id ex_order),
           ostatus := deriveOrderStatus (order_fulfilled_sum ex_db_sync (order_id ex_order))
             (total_items ex_order)\<rparr>
           \<in> set (orders (sync_shopify ex_db_sync [] ex_fetched))"
    by simp
  then have a: "ex_order \<in> set (orders (sync_shopify ex_db_sync [] ex_fetched))"
    by (simp only: f)
  from reconciliation_preserves_progress[of ex_db_sync "[]" ex_fetched] f(1,9,10,11)
  have "getOrderByOrderId (snd (clearOrdersWithoutProgress ex_db_sync)) (order_id ex_order2) = None \<and>
         order_id ex_order2 \<notin> set (getOrderIdsToSkipDuringSync ex_db_sync)"
    by blast
  then have b: "getOrderByOrderId (snd (clearOrdersWithoutProgress ex_db_sync)) ''order-2'' = None \<and>
         ''order-2'' \<notin> set (getOrderIdsToSkipDuringSync ex_db_sync)"
    using f(12) by simp
  from reconciliation_preserves_progress[of ex_db_sync "[]" ex_fetched] f(1,9,10,11,14,15,16)
  have "getOrderByOrderId (sync_shopify ex_db_sync [] ex_fetched) (order_id ex_order2) =
     Some \<lparr>order_id = order_id ex_order2,
       order_name = order_name (fst (ex_order2\<lparr>order_name := ''#1002-new'', total_items := 4\<rparr>,
            [ex_line2\<lparr>quantity := 4\<rparr>])),
       order_date = order_date (fst (ex_order2\<lparr>order_name := ''#1002-new'', total_items := 4\<rparr>,
            [ex_line2\<lparr>quantity := 4\<rparr>])),
       total_items = total_items (fst (ex_order2\<lparr>order_name := ''#1002-new'', total_items := 4\<rparr>,
            [ex_line2\<lparr>quantity := 4\<rparr>])),
       fulfilled_items = 0, ostatus = OPending\<rparr>"
    by blast
  then have c: "getOrderByOrderId (sync_shopify ex_db_sync [] ex_fetched) ''order-2'' =
     Some \<lparr>order_id = ''order-2'', order_name = ''#1002-new'',
       order_date = ''2025-01-11T10:00:00Z'', total_items = 4,
       fulfilled_items = 0, ostatus = OPending\<rparr>"
    by (simp add: f(12)) (simp add: ex_order2_def)
  have e: "\<forall>x \<in> set []. order_id (fst x) \<noteq> order_id ex_order2" by simp
  from reconciliation_preserves_progress[of ex_db_sync "[]" "[]"] f(1,9,10,11)
  have "getOrderByOrderId (sync_shopify ex_db_sync [] []) (order_id ex_order2) = None"
    by simp
  then have g: "getOrderByOrderId (sync_shopify ex_db_sync [] []) ''order-2'' = None"
    by (simp add: f(12))
  show ?thesis using a b c g f(1,3,4,9,10) by blast
qed

lemma ex_drift_reached:
  "snd (archive_order ex_db_fulfilled ''order-a'') =
     \<lparr>tasks = [ex_task\<lparr>total_quantity := 5, made_quantity := 0, status := Pending\<rparr>],
      orders = [ex_order_jan10, ex_order_jan01\<lparr>fulfilled_items := 5, ostatus := Archived\<rparr>],
      order_line_items = [ex_line_jan10, ex_line_jan01\<lparr>fulfilled_quantity := 5\<rparr>]\<rparr>"
  "snd (reset_task
     \<lparr>tasks = [ex_task\<lparr>total_quantity := 5, made_quantity := 0, status := Pending\<rparr>],
      orders = [ex_order_jan10, ex_order_jan01\<lparr>fulfilled_items := 5, ostatus := Archived\<rparr>],
      order_line_items = [ex_line_jan10, ex_line_jan01\<lparr>fulfilled_quantity := 5\<rparr>]\<rparr>
     ''variant-1'') =
     \<lparr>tasks = [ex_task\<lparr>total_quantity := 5, made_quantity := 0, status := Pending\<rparr>],
      orders = [ex_order_jan10, ex_order_jan01\<lparr>fulfilled_items := 5, ostatus := Archived\<rparr>],
      order_line_items = [ex_line_jan10, ex_line_jan01]\<rparr>"
  "snd (unarchive_order
     \<lparr>tasks = [ex_task\<lparr>total_quantity := 5, made_quantity := 0, status := Pending\<rparr>],
      orders = [ex_order_jan10, ex_order_jan01\<lparr>fulfilled_items := 5, ostatus := Archived\<rparr>],
      order_line_items = [ex_line_jan10, ex_line_jan01]\<rparr> ''order-a'') = ex_db_drift"
  by (simp_all add: archive_order_def archiveOrder_def reset_task_def resetTask_def
      resetVariantInOrders_def unarchive_order_def unarchiveOrder_def archive_item_def
      unarchive_item_def updateTaskStatus_def update_tasks_def update_orders_def
      update_line_items_def delete_tasks_def updateAllOrderStatuses_def order_fulfilled_sum_def
      getOrderLineItems_def getOrderByOrderId_def getTaskByVariantId_def deriveTaskStatus_def
      deriveOrderStatus_def inlineOrderStatus_def Let_def
      ex_db_fulfilled_def ex_db_drift_def ex_task_def ex_order_jan01_def ex_order_jan10_def
      ex_line_jan01_def ex_line_jan10_def)

theorem sync_overwrites_counter_counterexample:
  "snd (unarchive_order (snd (reset_task (snd (archive_order ex_db_fulfilled ''order-a''))
      ''variant-1'')) ''order-a'') = ex_db_drift \<and>
   getOrderByOrderId ex_db_drift ''order-a'' =
     Some (ex_order_jan01\<lparr>fulfilled_items := 5, ostatus := Fulfilled\<rparr>) \<and>
   getOrderByOrderId (sync_shopify ex_db_drift [] [(ex_order_jan01, [ex_line_jan01])]) ''order-a'' =
     Some (ex_order_jan01\<lparr>fulfilled_items := 0, ostatus := OPending\<rparr>)"
proof -
  have 1: "snd (unarchive_order (snd (reset_task (snd (archive_order ex_db_fulfilled ''order-a''))
      ''variant-1'')) ''order-a'') = ex_db_drift"
    by (simp only: ex_drift_reached)
  have 2: "getOrderByOrderId ex_db_drift ''order-a'' =
     Some (ex_order_jan01\<lparr>fulfilled_items := 5, ostatus := Fulfilled\<rparr>)"
    by (simp add: getOrderByOrderId_def ex_db_drift_def ex_order_jan01_def ex_order_jan10_def)
  have 3: "getOrderByOrderId (sync_shopify ex_db_drift [] [(ex_order_jan01, [ex_line_jan01])])
      ''order-a'' = Some (ex_order_jan01\<lparr>fulfilled_items := 0, ostatus := OPending\<rparr>)"
    unfolding sync_lookup lookup_updateAllOrderStatuses
    by (simp add: getOrderIdsToSkipDuringSync_def clearOrdersWithoutProgress_def store_order_def
        getOrderByOrderId_def order_fulfilled_sum_def getOrderLineItems_def deriveOrderStatus_def
        Let_def ex_db_drift_def ex_order_jan01_def ex_order_jan10_def ex_line_jan01_def
        ex_line_jan10_def)
  show ?thesis using 1 2 3 by blast
qed

subsection \<open>Archive and unarchive: the round trip\<close>




































end
